theory Spec2Isabelle
  imports Complex_Main "HOL-Library.Log_Nat"
begin

section \<open>Python numbers\<close>

text \<open>
  The simulation computes with Python's \<^verbatim>\<open>int\<close> (unbounded) and \<^verbatim>\<open>float\<close> (IEEE 754
  binary64). A float is represented by the rational number it denotes, and every float
  operation is the exact operation followed by rounding to nearest, ties to even: to 53
  significant bits, and to a multiple of \<open>2\<^sup>-\<^sup>1\<^sup>0\<^sup>7\<^sup>4\<close> below \<open>2\<^sup>-\<^sup>1\<^sup>0\<^sup>2\<^sup>2\<close> (the subnormal
  numbers; a result below half of the smallest one is 0.0). The exponent range is not
  bounded above: infinities, NaN and the \<^verbatim>\<open>OverflowError\<close> that Python raises when an int
  of \<open>2\<^sup>1\<^sup>0\<^sup>2\<^sup>4\<close> or more is converted or a quotient of ints leaves the float range are
  outside the model. They need a number of that size; a run, whose numbers are survey
  scores, tolerances in \<open>[0.5, 0.9]\<close>, crowding ratios and the lengths of lists it has
  built, has none.
\<close>

definition round_half_even :: "rat \<Rightarrow> int" where
  "round_half_even q =
     (let f = \<lfloor>q\<rfloor>; d = q - of_int f in
      if d < 1 / 2 then f
      else if 1 / 2 < d then f + 1
      else if even f then f else f + 1)"

text \<open>\<open>ilog2 q\<close> is the binary exponent of a positive \<open>q\<close>: \<open>2 powi ilog2 q \<le> q < 2 powi (ilog2 q + 1)\<close>.\<close>

definition ilog2 :: "rat \<Rightarrow> int" where
  "ilog2 q = (if 1 \<le> q then bitlen \<lfloor>q\<rfloor> - 1 else - bitlen (\<lceil>1 / q\<rceil> - 1))"

text \<open>
  \<open>fl q\<close> is the binary64 number nearest to \<open>q\<close>; the exponent of its last place is
  that of bit 53 of \<open>q\<close>, and \<open>-1074\<close> when \<open>q\<close> is in the subnormal range.
\<close>

definition fl :: "rat \<Rightarrow> rat" where
  "fl q =
     (if q = 0 then 0
      else let e = max (ilog2 \<bar>q\<bar> - 52) (- 1074);
               m = round_half_even (\<bar>q\<bar> / 2 powi e)
           in sgn q * of_int m * 2 powi e)"

datatype py_error = ZeroDivisionError

datatype pynum = PInt int | PFloat rat

text \<open>The exact numeric value; Python compares an int with a float by value.\<close>

fun val :: "pynum \<Rightarrow> rat" where
  "val (PInt n) = of_int n"
| "val (PFloat x) = x"

text \<open>The conversion \<^verbatim>\<open>float(n)\<close> applied to the int operand of a mixed operation.\<close>

fun to_float :: "pynum \<Rightarrow> rat" where
  "to_float (PInt n) = fl (of_int n)"
| "to_float (PFloat x) = x"

fun py_add :: "pynum \<Rightarrow> pynum \<Rightarrow> pynum" where
  "py_add (PInt m) (PInt n) = PInt (m + n)"
| "py_add a b = PFloat (fl (to_float a + to_float b))"

fun py_sub :: "pynum \<Rightarrow> pynum \<Rightarrow> pynum" where
  "py_sub (PInt m) (PInt n) = PInt (m - n)"
| "py_sub a b = PFloat (fl (to_float a - to_float b))"

fun py_mul :: "pynum \<Rightarrow> pynum \<Rightarrow> pynum" where
  "py_mul (PInt m) (PInt n) = PInt (m * n)"
| "py_mul a b = PFloat (fl (to_float a * to_float b))"

text \<open>
  True division \<^verbatim>\<open>a / b\<close>. Of two ints it is the correctly rounded quotient; otherwise
  the operands are converted first. A zero divisor raises. (The \<^verbatim>\<open>OverflowError\<close> of
  operands beyond the float range is outside the model, see above.)
\<close>

fun py_truediv :: "pynum \<Rightarrow> pynum \<Rightarrow> py_error + pynum" where
  "py_truediv (PInt m) (PInt n) =
     (if n = 0 then Inl ZeroDivisionError else Inr (PFloat (fl (of_int m / of_int n))))"
| "py_truediv a b =
     (if val b = 0 then Inl ZeroDivisionError
      else Inr (PFloat (fl (to_float a / to_float b))))"

definition py_lt :: "pynum \<Rightarrow> pynum \<Rightarrow> bool" where
  "py_lt a b = (val a < val b)"

text \<open>\<^verbatim>\<open>max(a, b)\<close> and \<^verbatim>\<open>min(a, b)\<close> keep the first argument unless the second beats it.\<close>

definition py_max :: "pynum \<Rightarrow> pynum \<Rightarrow> pynum" where
  "py_max a b = (if py_lt a b then b else a)"

definition py_min :: "pynum \<Rightarrow> pynum \<Rightarrow> pynum" where
  "py_min a b = (if py_lt b a then b else a)"

text \<open>
  \<^verbatim>\<open>sum(xs)\<close>: accumulation from the int \<open>0\<close>, left to right, every addition rounded
  (the builtin of CPython up to 3.11; later versions add a compensation term for floats).
\<close>

definition py_sum :: "pynum list \<Rightarrow> pynum" where
  "py_sum xs = foldl py_add (PInt 0) xs"

text \<open>\<^verbatim>\<open>d.get(k, default)\<close> on a dict held as an association list.\<close>

definition dict_get :: "(string \<times> 'v) list \<Rightarrow> string \<Rightarrow> 'v \<Rightarrow> 'v" where
  "dict_get d k dflt = (case map_of d k of Some v \<Rightarrow> v | None \<Rightarrow> dflt)"

section \<open>The commuter dataset\<close>

text \<open>
  One row of \<^verbatim>\<open>commuter_data.csv\<close>, with the columns the code reads. The profile passed
  to \<^verbatim>\<open>generate_recommendations\<close> is such a row as a dict; the schema is fixed, so
  every key the code reads is present.
\<close>

record commuter =
  CommuterID :: int
  UsualCommuteMode :: string
  Attitude_Car_Score :: int
  Attitude_PT_Score :: int
  Attitude_WalkCycle_Score :: int
  SN_Car_Score :: int
  SN_PT_Score :: int
  SN_WalkCycle_Score :: int
  PBC_Car_Score :: int
  PBC_PT_Score :: int
  PBC_WalkCycle_Score :: int
  Intention_Car_Score :: int
  Intention_PT_Score :: int
  Intention_WalkCycle_Score :: int

section \<open>agent_simulation.py\<close>

subsection \<open>CommuterAgent\<close>

record CommuterAgent =
  agent_id :: int
  usual_mode :: string
  current_mode :: string
  attitude_pt :: pynum
  pbc_pt :: pynum
  crowding_tolerance :: pynum

text \<open>
  The constructor. \<open>sample\<close> is the float that \<^verbatim>\<open>random.uniform(0.5, 0.9)\<close> returns
  when no tolerance is supplied.
\<close>

definition CommuterAgent_init ::
  "int \<Rightarrow> string \<Rightarrow> pynum \<Rightarrow> pynum \<Rightarrow> pynum option \<Rightarrow> rat \<Rightarrow> CommuterAgent" where
  "CommuterAgent_init i mode att pbc tolerance sample =
     \<lparr> agent_id = i, usual_mode = mode, current_mode = mode,
       attitude_pt = att, pbc_pt = pbc,
       crowding_tolerance = (case tolerance of Some t \<Rightarrow> t | None \<Rightarrow> PFloat sample) \<rparr>"

text \<open>The method returns its verdict together with the agent as the call leaves it.\<close>

definition decide_on_pt :: "CommuterAgent \<Rightarrow> pynum \<Rightarrow> bool \<times> CommuterAgent" where
  "decide_on_pt self perceived_crowding_level =
     (if usual_mode self \<noteq> ''Public Transport'' then (False, self)
      else
        let crowding_impact =
              py_mul (py_max (PInt 0) (py_sub perceived_crowding_level (crowding_tolerance self)))
                (PInt 2);
            adjusted_pbc_pt =
              py_max (PInt 1) (py_sub (pbc_pt self) (py_mul crowding_impact (PInt 3)));
            adjusted_attitude_pt =
              py_max (PInt 1) (py_sub (attitude_pt self) (py_mul crowding_impact (PInt 2)))
        in if py_lt adjusted_pbc_pt (PInt 3) \<or> py_lt adjusted_attitude_pt (PInt 3)
           then (False, self)
           else (True, self))"

subsection \<open>PublicTransportLine\<close>

record PublicTransportLine =
  name :: string
  capacity :: int
  current_riders :: int

definition PublicTransportLine_init :: "string \<Rightarrow> int \<Rightarrow> PublicTransportLine" where
  "PublicTransportLine_init n c = \<lparr> name = n, capacity = c, current_riders = 0 \<rparr>"

definition get_crowding_level :: "PublicTransportLine \<Rightarrow> py_error + pynum" where
  "get_crowding_level self =
     (if capacity self = 0 then Inr (PFloat 0)
      else case py_truediv (PInt (current_riders self)) (PInt (capacity self)) of
             Inl e \<Rightarrow> Inl e
           | Inr ratio \<Rightarrow> Inr (py_min (PFloat 1) ratio))"

definition add_rider :: "PublicTransportLine \<Rightarrow> PublicTransportLine" where
  "add_rider self = self\<lparr>current_riders := current_riders self + 1\<rparr>"

definition remove_rider :: "PublicTransportLine \<Rightarrow> PublicTransportLine" where
  "remove_rider self = self\<lparr>current_riders := max 0 (current_riders self - 1)\<rparr>"

definition reset_riders :: "PublicTransportLine \<Rightarrow> PublicTransportLine" where
  "reset_riders self = self\<lparr>current_riders := 0\<rparr>"

subsection \<open>run_crowding_simulation\<close>

text \<open>
  The variables of the function body that the loop updates. \<open>printed\<close> collects the
  values that the two per-step \<^verbatim>\<open>print\<close> calls format: the riders attempting, the
  perceived crowding, the riders after the response and the final crowding of the step.
\<close>

record sim_state =
  pt_line :: PublicTransportLine
  pt_users :: "CommuterAgent list"
  mode_switches_total :: int
  crowding_levels_over_time :: "pynum list"
  printed :: "(int \<times> pynum \<times> int \<times> pynum) list"

text \<open>
  One agent per row, in row order; \<open>tol i\<close> is the tolerance drawn for the agent of
  row \<open>i\<close> (the simulation never supplies one).
\<close>

definition make_agents :: "(nat \<Rightarrow> rat) \<Rightarrow> commuter list \<Rightarrow> CommuterAgent list" where
  "make_agents tol commuters_df =
     map (\<lambda>(i, row).
            CommuterAgent_init (CommuterID row) (UsualCommuteMode row)
              (PInt (Attitude_PT_Score row)) (PInt (PBC_PT_Score row)) None (tol i))
         (enumerate 0 commuters_df)"

text \<open>
  The loop over \<open>pt_users\<close> of one step: \<open>stay\<close> is
  \<^verbatim>\<open>current_pt_riders_after_response\<close>, \<open>switches\<close> is \<^verbatim>\<open>mode_switches_total\<close>.
\<close>

fun respond ::
  "pynum \<Rightarrow> CommuterAgent list \<Rightarrow> int \<Rightarrow> int \<Rightarrow> CommuterAgent list \<times> int \<times> int" where
  "respond perceived [] stay switches = ([], stay, switches)"
| "respond perceived (agent # rest) stay switches =
     (case decide_on_pt agent perceived of
        (True, agent') \<Rightarrow>
          (case respond perceived rest (stay + 1) switches of
             (rest', r) \<Rightarrow> (agent' # rest', r))
      | (False, agent') \<Rightarrow>
          (case respond perceived rest stay (switches + 1) of
             (rest', r) \<Rightarrow> (agent'\<lparr>current_mode := ''Alternative''\<rparr> # rest', r)))"

definition sim_step :: "sim_state \<Rightarrow> py_error + sim_state" where
  "sim_step st =
     (let line0 = reset_riders (pt_line st);
          initial_pt_attempt_count = int (length (pt_users st));
          line1 = line0\<lparr>current_riders := initial_pt_attempt_count\<rparr>
      in case get_crowding_level line1 of
           Inl e \<Rightarrow> Inl e
         | Inr perceived_crowding \<Rightarrow>
             (case respond perceived_crowding (pt_users st) 0 (mode_switches_total st) of
                (users', current_pt_riders_after_response, switches') \<Rightarrow>
                  let line2 = line1\<lparr>current_riders := current_pt_riders_after_response\<rparr>
                  in case get_crowding_level line2 of
                       Inl e \<Rightarrow> Inl e
                     | Inr final_crowding_this_step \<Rightarrow>
                         Inr \<lparr> pt_line = line2, pt_users = users',
                               mode_switches_total = switches',
                               crowding_levels_over_time =
                                 crowding_levels_over_time st @ [perceived_crowding],
                               printed = printed st @
                                 [(initial_pt_attempt_count, perceived_crowding,
                                   current_pt_riders_after_response,
                                   final_crowding_this_step)] \<rparr>))"

text \<open>\<^verbatim>\<open>for step in range(num_sim_steps)\<close>, with the number of iterations left.\<close>

fun sim_loop :: "nat \<Rightarrow> sim_state \<Rightarrow> py_error + sim_state" where
  "sim_loop 0 st = Inr st"
| "sim_loop (Suc n) st =
     (case sim_step st of Inl e \<Rightarrow> Inl e | Inr st' \<Rightarrow> sim_loop n st')"

definition init_state :: "(nat \<Rightarrow> rat) \<Rightarrow> commuter list \<Rightarrow> int \<Rightarrow> sim_state" where
  "init_state tol commuters_df pt_capacity =
     \<lparr> pt_line = PublicTransportLine_init ''Main PT Line'' pt_capacity,
       pt_users = filter (\<lambda>agent. usual_mode agent = ''Public Transport'')
                    (make_agents tol commuters_df),
       mode_switches_total = 0,
       crowding_levels_over_time = [],
       printed = [] \<rparr>"

text \<open>The state after the loop (a negative \<open>num_sim_steps\<close> gives an empty range).\<close>

definition simulate :: "(nat \<Rightarrow> rat) \<Rightarrow> commuter list \<Rightarrow> int \<Rightarrow> int \<Rightarrow> py_error + sim_state" where
  "simulate tol commuters_df pt_capacity num_sim_steps =
     sim_loop (nat num_sim_steps) (init_state tol commuters_df pt_capacity)"

text \<open>\<^verbatim>\<open>sum(levels) / len(levels) if levels else 0\<close>\<close>

definition average :: "pynum list \<Rightarrow> py_error + pynum" where
  "average levels =
     (if levels \<noteq> [] then py_truediv (py_sum levels) (PInt (int (length levels)))
      else Inr (PInt 0))"

definition run_crowding_simulation ::
  "(nat \<Rightarrow> rat) \<Rightarrow> commuter list \<Rightarrow> int \<Rightarrow> int \<Rightarrow> py_error + (string \<times> pynum) list" where
  "run_crowding_simulation tol commuters_df pt_capacity num_sim_steps =
     (case simulate tol commuters_df pt_capacity num_sim_steps of
        Inl e \<Rightarrow> Inl e
      | Inr st \<Rightarrow>
          (case average (crowding_levels_over_time st) of
             Inl e \<Rightarrow> Inl e
           | Inr avg_crowding \<Rightarrow>
               Inr [(''average_pt_crowding'', avg_crowding),
                    (''total_mode_switches_from_pt'', PInt (mode_switches_total st)),
                    (''simulated_pt_capacity'', PInt pt_capacity),
                    (''num_sim_steps'', PInt num_sim_steps)]))"

section \<open>recommendation_engine.py\<close>

text \<open>
  The messages, one constructor per string literal of \<^verbatim>\<open>generate_recommendations\<close> in
  source order; the four formatted ones carry the number they interpolate.
\<close>

datatype recommendation =
    PT_NegativeAttitude
  | PT_LowSubjectiveNorm
  | PT_PerceivedChallenges
  | PT_StrongIntention
  | Car_StrongPreference
  | Car_ConsiderImpact
  | WalkCycle_Challenges
  | WalkCycle_KeepItUp
  | CrowdingAlert pynum
  | CrowdingModerate pynum
  | CrowdingLow pynum
  | SwitchesObserved pynum
  | BalancedView

definition pt_rules :: "commuter \<Rightarrow> recommendation list" where
  "pt_rules user_profile =
     (if Intention_PT_Score user_profile < 4 then
        (if Attitude_PT_Score user_profile < 4 then [PT_NegativeAttitude] else []) @
        (if SN_PT_Score user_profile < 4 then [PT_LowSubjectiveNorm] else []) @
        (if PBC_PT_Score user_profile < 4 then [PT_PerceivedChallenges] else [])
      else if 5 \<le> Intention_PT_Score user_profile then [PT_StrongIntention]
      else [])"

definition car_rules :: "commuter \<Rightarrow> recommendation list" where
  "car_rules user_profile =
     (if 5 \<le> Intention_Car_Score user_profile then
        (if 5 \<le> Attitude_Car_Score user_profile \<and> 5 \<le> PBC_Car_Score user_profile
         then [Car_StrongPreference] else []) @
        (if SN_Car_Score user_profile < 4 then [Car_ConsiderImpact] else [])
      else [])"

definition walkcycle_rules :: "commuter \<Rightarrow> recommendation list" where
  "walkcycle_rules user_profile =
     (if 5 \<le> Intention_WalkCycle_Score user_profile then
        (if PBC_WalkCycle_Score user_profile < 4 then [WalkCycle_Challenges]
         else [WalkCycle_KeepItUp])
      else [])"

text \<open>
  The crowding section. \<^verbatim>\<open>if crowding_insights:\<close> is false for \<^verbatim>\<open>None\<close> and for an
  empty dict. The literals \<^verbatim>\<open>0.7\<close> and \<^verbatim>\<open>0.4\<close> are the floats nearest to them.
\<close>

definition crowding_rules :: "commuter \<Rightarrow> (string \<times> pynum) list option \<Rightarrow> recommendation list" where
  "crowding_rules user_profile crowding_insights =
     (case crowding_insights of
        None \<Rightarrow> []
      | Some d \<Rightarrow>
          if d = [] then []
          else
            let avg_crowding = dict_get d ''average_pt_crowding'' (PInt 0);
                total_switches = dict_get d ''total_mode_switches_from_pt'' (PInt 0)
            in (if py_lt (PFloat (fl (7 / 10))) avg_crowding then [CrowdingAlert avg_crowding]
                else if py_lt (PFloat (fl (4 / 10))) avg_crowding then [CrowdingModerate avg_crowding]
                else [CrowdingLow avg_crowding]) @
               (if py_lt (PInt 0) total_switches
                   \<and> UsualCommuteMode user_profile = ''Public Transport''
                then [SwitchesObserved total_switches] else []))"

definition generate_recommendations ::
  "commuter \<Rightarrow> (string \<times> pynum) list option \<Rightarrow> recommendation list" where
  "generate_recommendations user_profile crowding_insights =
     (let recommendations =
            pt_rules user_profile @ car_rules user_profile @ walkcycle_rules user_profile @
            crowding_rules user_profile crowding_insights
      in if recommendations = [] then recommendations @ [BalancedView]
         else recommendations)"

text \<open>The three messages of the crowding section that report the crowding level.\<close>

fun is_crowding_level :: "recommendation \<Rightarrow> bool" where
  "is_crowding_level (CrowdingAlert a) = True"
| "is_crowding_level (CrowdingModerate a) = True"
| "is_crowding_level (CrowdingLow a) = True"
| "is_crowding_level r = False"

section \<open>Example data\<close>

text \<open>A profile with the given usual mode and every score equal to \<open>k\<close>.\<close>

definition uniform_profile :: "string \<Rightarrow> int \<Rightarrow> commuter" where
  "uniform_profile mode k =
     \<lparr> CommuterID = 1, UsualCommuteMode = mode,
       Attitude_Car_Score = k, Attitude_PT_Score = k, Attitude_WalkCycle_Score = k,
       SN_Car_Score = k, SN_PT_Score = k, SN_WalkCycle_Score = k,
       PBC_Car_Score = k, PBC_PT_Score = k, PBC_WalkCycle_Score = k,
       Intention_Car_Score = k, Intention_PT_Score = k, Intention_WalkCycle_Score = k \<rparr>"

text \<open>A row with the given id, usual mode, attitude-PT and PBC-PT score; the other scores are 4.\<close>

definition pt_row :: "int \<Rightarrow> string \<Rightarrow> int \<Rightarrow> int \<Rightarrow> commuter" where
  "pt_row i mode att pbc =
     (uniform_profile mode 4)\<lparr> CommuterID := i, Attitude_PT_Score := att, PBC_PT_Score := pbc \<rparr>"

text \<open>
  The usual modes and the two scores the simulation reads of the five rows of the test
  frame at the end of \<^verbatim>\<open>agent_simulation.py\<close>.
\<close>

definition test_df :: "commuter list" where
  "test_df =
     [pt_row 1 ''Public Transport'' 5 5, pt_row 2 ''Car'' 3 3,
      pt_row 3 ''Public Transport'' 6 6, pt_row 4 ''Public Transport'' 4 4,
      pt_row 5 ''Walk/Cycle'' 2 3]"

text \<open>Every draw of the tolerance returns the same float.\<close>

definition fixed_draws :: "rat \<Rightarrow> nat \<Rightarrow> rat" where
  "fixed_draws t i = t"

text \<open>The agent of the scenario: PT-usual, both PT scores 5, tolerance the float 0.6.\<close>

definition scenario_agent :: CommuterAgent where
  "scenario_agent =
     CommuterAgent_init 1 ''Public Transport'' (PInt 5) (PInt 5) (Some (PFloat (fl (3 / 5)))) 0"

text \<open>
  Five rows of which three are PT-usual with PBC-PT score 5 (the rows of \<open>test_df\<close> with
  that score set).
\<close>

definition scenario_df :: "commuter list" where
  "scenario_df =
     [pt_row 1 ''Public Transport'' 5 5, pt_row 2 ''Car'' 3 3,
      pt_row 3 ''Public Transport'' 6 5, pt_row 4 ''Public Transport'' 4 5,
      pt_row 5 ''Walk/Cycle'' 2 3]"

section \<open>Notions used in the statements\<close>

text \<open>The components of an entry of \<open>printed\<close>.\<close>

fun attempting_of :: "int \<times> pynum \<times> int \<times> pynum \<Rightarrow> int" where
  "attempting_of (attempting, perceived, after, final) = attempting"

fun perceived_of :: "int \<times> pynum \<times> int \<times> pynum \<Rightarrow> pynum" where
  "perceived_of (attempting, perceived, after, final) = perceived"

fun final_of :: "int \<times> pynum \<times> int \<times> pynum \<Rightarrow> pynum" where
  "final_of (attempting, perceived, after, final) = final"

text \<open>The number of rows whose usual mode is "Public Transport".\<close>

text \<open>Every score of the profile is \<open>k\<close>.\<close>

definition all_scores :: "commuter \<Rightarrow> int \<Rightarrow> bool" where
  "all_scores p k =
     (Attitude_Car_Score p = k \<and> Attitude_PT_Score p = k \<and> Attitude_WalkCycle_Score p = k \<and>
      SN_Car_Score p = k \<and> SN_PT_Score p = k \<and> SN_WalkCycle_Score p = k \<and>
      PBC_Car_Score p = k \<and> PBC_PT_Score p = k \<and> PBC_WalkCycle_Score p = k \<and>
      Intention_Car_Score p = k \<and> Intention_PT_Score p = k \<and> Intention_WalkCycle_Score p = k)"

definition pt_usual_count :: "commuter list \<Rightarrow> int" where
  "pt_usual_count commuters_df =
     int (length (filter (\<lambda>row. UsualCommuteMode row = ''Public Transport'') commuters_df))"

text \<open>
  The value \<^verbatim>\<open>get_crowding_level\<close> returns on a line with the given riders and capacity
  (lemma \<open>get_crowding_level_eq\<close>).
\<close>

definition crowding_of :: "int \<Rightarrow> int \<Rightarrow> pynum" where
  "crowding_of riders cap =
     (if cap = 0 then PFloat 0
      else py_min (PFloat 1) (PFloat (fl (of_int riders / of_int cap))))"

text \<open>What the loop over \<open>pt_users\<close> does to an agent, given the crowding of the step.\<close>

definition mark_switch :: "pynum \<Rightarrow> CommuterAgent \<Rightarrow> CommuterAgent" where
  "mark_switch perceived agent =
     (if fst (decide_on_pt agent perceived) then agent
      else agent\<lparr>current_mode := ''Alternative''\<rparr>)"

text \<open>The number of agents of a list whose verdict at the given crowding is to switch.\<close>

definition switchers :: "pynum \<Rightarrow> CommuterAgent list \<Rightarrow> int" where
  "switchers perceived agents =
     int (length (filter (\<lambda>agent. \<not> fst (decide_on_pt agent perceived)) agents))"

definition stayers :: "pynum \<Rightarrow> CommuterAgent list \<Rightarrow> int" where
  "stayers perceived agents =
     int (length (filter (\<lambda>agent. fst (decide_on_pt agent perceived)) agents))"

text \<open>
  The unit roundoff \<open>2\<^sup>-\<^sup>5\<^sup>3\<close> of binary64 and its smallest positive normal number
  \<open>2\<^sup>-\<^sup>1\<^sup>0\<^sup>2\<^sup>2\<close>; rounding errors are stated with them.
\<close>

definition unit_roundoff :: rat where
  "unit_roundoff = 1 / 2 ^ 53"

definition min_normal :: rat where
  "min_normal = 1 / 2 ^ 1022"

section \<open>Rounding to binary64\<close>

lemma rhe_cases: "round_half_even q = \<lfloor>q\<rfloor> \<or> round_half_even q = \<lfloor>q\<rfloor> + 1"
  by (simp add: round_half_even_def Let_def)

lemma rhe_of_int [simp]: "round_half_even (of_int n) = n"
  by (simp add: round_half_even_def)

lemma rhe_lower: "\<lfloor>q\<rfloor> \<le> round_half_even q"
  using rhe_cases [of q] by auto

lemma rhe_mono: "x \<le> y \<Longrightarrow> round_half_even x \<le> round_half_even y"
proof -
  assume xy: "x \<le> y"
  have fxy: "\<lfloor>x\<rfloor> \<le> \<lfloor>y\<rfloor>" using xy by (rule floor_mono)
  show ?thesis
  proof (cases "\<lfloor>x\<rfloor> = \<lfloor>y\<rfloor>")
    case True
    then show ?thesis using xy
      by (auto simp add: round_half_even_def Let_def)
  next
    case False
    then have "\<lfloor>x\<rfloor> + 1 \<le> \<lfloor>y\<rfloor>" using fxy by simp
    moreover have "round_half_even x \<le> \<lfloor>x\<rfloor> + 1" using rhe_cases [of x] by auto
    ultimately show ?thesis using rhe_lower [of y] by linarith
  qed
qed

lemma powi2_pos [simp]: "0 < (2::rat) powi k"
  by (simp add: power_int_def)

lemma powi2_mono: "i \<le> j \<Longrightarrow> (2::rat) powi i \<le> 2 powi j"
  by (rule power_int_increasing) simp_all

lemma ilog2_bounds:
  assumes "0 < q"
  shows "2 powi (ilog2 q) \<le> q \<and> q < 2 powi (ilog2 q + 1)"
proof (cases "1 \<le> q")
  case True
  define n where "n = \<lfloor>q\<rfloor>"
  have n1: "1 \<le> n" using True by (simp add: n_def)
  then have npos: "0 < n" by simp
  have b1: "1 \<le> bitlen n" using npos bitlen_eq_zero_iff [of n] bitlen_nonneg [of n] by linarith
  have il: "ilog2 q = bitlen n - 1" using True by (simp add: ilog2_def n_def)
  have lo: "(2::int) ^ nat (bitlen n - 1) \<le> n" and hi: "n < 2 ^ nat (bitlen n)"
    using bitlen_bounds [OF npos] by auto
  have "(2::rat) ^ nat (bitlen n - 1) = of_int (2 ^ nat (bitlen n - 1))" by simp
  also have "\<dots> \<le> of_int n" using lo by (simp only: of_int_le_iff)
  also have "\<dots> \<le> q" by (simp add: n_def)
  finally have A: "2 powi (ilog2 q) \<le> q" using b1 by (simp add: il power_int_def)
  have "n + 1 \<le> 2 ^ nat (bitlen n)" using hi by simp
  then have "(of_int (n + 1) :: rat) \<le> of_int (2 ^ nat (bitlen n))" by (simp only: of_int_le_iff)
  moreover have "q < of_int (n + 1)" unfolding n_def by linarith
  ultimately have "q < 2 ^ nat (bitlen n)" by simp
  then have B: "q < 2 powi (ilog2 q + 1)" using b1 by (simp add: il power_int_def)
  from A B show ?thesis by simp
next
  case False
  then have q1: "q < 1" by simp
  define k where "k = \<lceil>1 / q\<rceil> - 1"
  have r1: "1 < 1 / q" using assms q1 by simp
  have k1: "1 \<le> k" unfolding k_def using r1 by linarith
  then have kpos: "0 < k" by simp
  have b1: "1 \<le> bitlen k" using kpos bitlen_eq_zero_iff [of k] bitlen_nonneg [of k] by linarith
  have il: "ilog2 q = - bitlen k" using False by (simp add: ilog2_def k_def)
  have lo: "(2::int) ^ nat (bitlen k - 1) \<le> k" and hi: "k < 2 ^ nat (bitlen k)"
    using bitlen_bounds [OF kpos] by auto
  have "1 / q \<le> of_int (k + 1)" unfolding k_def by simp
  also have "(of_int (k + 1) :: rat) \<le> of_int (2 ^ nat (bitlen k))"
    using hi by (simp only: of_int_le_iff)
  finally have "1 / q \<le> 2 ^ nat (bitlen k)" by simp
  then have "1 / 2 ^ nat (bitlen k) \<le> q" using assms
    by (simp add: field_simps)
  moreover have "ilog2 q = - int (nat (bitlen k))" using b1 il by simp
  then have "(2::rat) powi (ilog2 q) = 1 / 2 ^ nat (bitlen k)"
    by (simp only: power_int_minus_divide power_int_of_nat)
  ultimately have A: "2 powi (ilog2 q) \<le> q" by simp
  have "(of_int (2 ^ nat (bitlen k - 1)) :: rat) \<le> of_int k" using lo by (simp only: of_int_le_iff)
  then have c1: "(2::rat) ^ nat (bitlen k - 1) \<le> of_int k" by simp
  have c2: "of_int k < 1 / q" unfolding k_def by linarith
  have "2 ^ nat (bitlen k - 1) < 1 / q" using c1 c2 by linarith
  then have "q < 1 / 2 ^ nat (bitlen k - 1)" using assms
    by (simp add: field_simps)
  moreover have "ilog2 q + 1 = - int (nat (bitlen k - 1))" using b1 il by simp
  then have "(2::rat) powi (ilog2 q + 1) = 1 / 2 ^ nat (bitlen k - 1)"
    by (simp only: power_int_minus_divide power_int_of_nat)
  ultimately have B: "q < 2 powi (ilog2 q + 1)" by simp
  from A B show ?thesis by simp
qed

lemma ilog2_unique:
  assumes "2 powi k \<le> q" "q < 2 powi (k + 1)"
  shows "ilog2 q = k"
proof -
  have qpos: "0 < q" using assms(1) powi2_pos [of k] by linarith
  note b = ilog2_bounds [OF qpos]
  have "\<not> ilog2 q < k"
  proof
    assume "ilog2 q < k"
    then have "ilog2 q + 1 \<le> k" by simp
    then have "(2::rat) powi (ilog2 q + 1) \<le> 2 powi k" by (rule powi2_mono)
    then show False using b assms by linarith
  qed
  moreover have "\<not> k < ilog2 q"
  proof
    assume "k < ilog2 q"
    then have "k + 1 \<le> ilog2 q" by simp
    then have "(2::rat) powi (k + 1) \<le> 2 powi (ilog2 q)" by (rule powi2_mono)
    then show False using b assms by linarith
  qed
  ultimately show ?thesis by simp
qed


lemma rhe_err: "\<bar>of_int (round_half_even q) - q\<bar> \<le> 1 / 2"
proof -
  define f where "f = \<lfloor>q\<rfloor>"
  define d where "d = q - of_int f"
  have d: "0 \<le> d" "d < 1" unfolding d_def f_def by linarith+
  have q: "q = of_int f + d" by (simp add: d_def)
  have r: "round_half_even q =
      (if d < 1 / 2 then f else if 1 / 2 < d then f + 1 else if even f then f else f + 1)"
    by (simp add: round_half_even_def Let_def f_def d_def)
  have "(round_half_even q = f \<and> d \<le> 1 / 2) \<or> (round_half_even q = f + 1 \<and> 1 / 2 \<le> d)"
    unfolding r by auto
  then show ?thesis
  proof
    assume a: "round_half_even q = f \<and> d \<le> 1 / 2"
    then have "of_int (round_half_even q) - q = - d" using q by simp
    then show ?thesis using d a by simp
  next
    assume a: "round_half_even q = f + 1 \<and> 1 / 2 \<le> d"
    then have "of_int (round_half_even q) - q = 1 - d" using q by simp
    then show ?thesis using d a by simp
  qed
qed

lemma rhe_nonneg: "0 \<le> q \<Longrightarrow> 0 \<le> round_half_even q"
  using rhe_lower [of q] by (simp add: order_trans [of 0 "\<lfloor>q\<rfloor>"])

lemma fl_zero [simp]: "fl 0 = 0"
  by (simp add: fl_def)

lemma fl_minus: "fl (- q) = - fl q"
  by (simp add: fl_def Let_def)

lemma fl_pos_eq:
  "0 < q \<Longrightarrow>
   fl q = of_int (round_half_even (q / 2 powi (max (ilog2 q - 52) (- 1074))))
            * 2 powi (max (ilog2 q - 52) (- 1074))"
  by (simp add: fl_def Let_def)

lemma fl_nonneg: "0 \<le> q \<Longrightarrow> 0 \<le> fl q"
proof (cases "q = 0")
  case True
  then show ?thesis by simp
next
  case False
  assume "0 \<le> q"
  then have q: "0 < q" using False by simp
  have "0 \<le> q / 2 powi (max (ilog2 q - 52) (- 1074))" using q by simp
  then have "0 \<le> round_half_even (q / 2 powi (max (ilog2 q - 52) (- 1074)))"
    by (rule rhe_nonneg)
  then show ?thesis by (simp add: fl_pos_eq [OF q])
qed

lemma fl_nonpos: "q \<le> 0 \<Longrightarrow> fl q \<le> 0"
  using fl_nonneg [of "- q"] by (simp add: fl_minus)

text \<open>The significand has at most 53 bits, and exactly 53 in the normal range.\<close>

lemma mant_upper:
  assumes "0 < q"
  shows "round_half_even (q / 2 powi (max (ilog2 q - 52) (- 1074))) \<le> 2 ^ 53"
proof -
  let ?e = "max (ilog2 q - 52) (- 1074)"
  have "q < 2 powi (ilog2 q + 1)" using ilog2_bounds [OF assms] by simp
  also have "(2::rat) powi (ilog2 q + 1) \<le> 2 powi (?e + 53)" by (rule powi2_mono) simp
  also have "(2::rat) powi (?e + 53) = 2 powi ?e * 2 ^ 53" by (simp add: power_int_add)
  finally have "q < 2 powi ?e * 2 ^ 53" .
  then have "q / 2 powi ?e < 2 ^ 53" by (simp add: field_simps)
  then have "q / 2 powi ?e \<le> of_int (2 ^ 53)" by simp
  then have "round_half_even (q / 2 powi ?e) \<le> round_half_even (of_int (2 ^ 53))"
    by (rule rhe_mono)
  then show ?thesis by (simp only: rhe_of_int)
qed

lemma mant_lower:
  assumes "0 < q" "- 1074 \<le> ilog2 q - 52"
  shows "2 ^ 52 \<le> round_half_even (q / 2 powi (max (ilog2 q - 52) (- 1074)))"
proof -
  have e: "max (ilog2 q - 52) (- 1074) = ilog2 q - 52" using assms(2) by simp
  have "(2::rat) powi (ilog2 q - 52) * 2 ^ 52 = 2 powi (ilog2 q)" by (simp add: power_int_diff)
  also have "\<dots> \<le> q" using ilog2_bounds [OF assms(1)] by simp
  finally have "(2::rat) powi (ilog2 q - 52) * 2 ^ 52 \<le> q" .
  then have "of_int (2 ^ 52) \<le> q / 2 powi (ilog2 q - 52)" by (simp add: field_simps)
  then have "round_half_even (of_int (2 ^ 52)) \<le> round_half_even (q / 2 powi (ilog2 q - 52))"
    by (rule rhe_mono)
  then show ?thesis unfolding e by (simp only: rhe_of_int)
qed

lemma fl_upper:
  assumes "0 < q"
  shows "fl q \<le> 2 powi (max (ilog2 q - 52) (- 1074) + 53)"
proof -
  let ?e = "max (ilog2 q - 52) (- 1074)"
  let ?m = "round_half_even (q / 2 powi ?e)"
  have "(of_int ?m :: rat) \<le> of_int (2 ^ 53)" using mant_upper [OF assms] by (simp only: of_int_le_iff)
  then have "(of_int ?m :: rat) \<le> 2 ^ 53" by simp
  then have "of_int ?m * 2 powi ?e \<le> (2::rat) ^ 53 * 2 powi ?e"
    by (simp only: mult_le_cancel_right_pos powi2_pos)
  also have "(2::rat) ^ 53 * 2 powi ?e = 2 powi (?e + 53)" by (simp add: power_int_add)
  finally show ?thesis by (simp only: fl_pos_eq [OF assms])
qed

lemma fl_lower:
  assumes "0 < q" "- 1074 \<le> ilog2 q - 52"
  shows "2 powi (ilog2 q) \<le> fl q"
proof -
  have e: "max (ilog2 q - 52) (- 1074) = ilog2 q - 52" using assms(2) by simp
  let ?m = "round_half_even (q / 2 powi (ilog2 q - 52))"
  have "(of_int (2 ^ 52) :: rat) \<le> of_int ?m"
    using mant_lower [OF assms] unfolding e by (simp only: of_int_le_iff)
  then have "(2::rat) ^ 52 \<le> of_int ?m" by simp
  then have "(2::rat) ^ 52 * 2 powi (ilog2 q - 52) \<le> of_int ?m * 2 powi (ilog2 q - 52)"
    by (simp only: mult_le_cancel_right_pos powi2_pos)
  moreover have "(2::rat) powi (ilog2 q) = 2 ^ 52 * 2 powi (ilog2 q - 52)"
    by (simp add: power_int_diff)
  moreover have "fl q = of_int ?m * 2 powi (ilog2 q - 52)"
    using fl_pos_eq [OF assms(1)] unfolding e .
  ultimately show ?thesis by (simp only:)
qed

lemma ilog2_mono:
  assumes "0 < x" "x \<le> y"
  shows "ilog2 x \<le> ilog2 y"
proof (rule ccontr)
  have ypos: "0 < y" using assms by simp
  assume "\<not> ilog2 x \<le> ilog2 y"
  then have "ilog2 y + 1 \<le> ilog2 x" by simp
  then have "(2::rat) powi (ilog2 y + 1) \<le> 2 powi (ilog2 x)" by (rule powi2_mono)
  then show False using ilog2_bounds [OF assms(1)] ilog2_bounds [OF ypos] assms by linarith
qed

lemma fl_mono_pos:
  assumes "0 < x" "x \<le> y"
  shows "fl x \<le> fl y"
proof -
  have ypos: "0 < y" using assms by simp
  let ?ex = "max (ilog2 x - 52) (- 1074)"
  let ?ey = "max (ilog2 y - 52) (- 1074)"
  have le: "?ex \<le> ?ey" using ilog2_mono [OF assms] by simp
  show ?thesis
  proof (cases "?ex = ?ey")
    case True
    have "x / 2 powi ?ey \<le> y / 2 powi ?ey"
      using assms(2) by (simp add: divide_right_mono)
    then have "round_half_even (x / 2 powi ?ey) \<le> round_half_even (y / 2 powi ?ey)"
      by (rule rhe_mono)
    then have "(of_int (round_half_even (x / 2 powi ?ey)) :: rat)
        \<le> of_int (round_half_even (y / 2 powi ?ey))"
      by (simp only: of_int_le_iff)
    then have "of_int (round_half_even (x / 2 powi ?ey)) * 2 powi ?ey
        \<le> of_int (round_half_even (y / 2 powi ?ey)) * (2::rat) powi ?ey"
      by (simp only: mult_le_cancel_right_pos powi2_pos)
    then show ?thesis
      using fl_pos_eq [OF assms(1)] fl_pos_eq [OF ypos] True by simp
  next
    case False
    then have lt: "?ex < ?ey" using le by linarith
    have "- 1074 \<le> ?ex" by simp
    then have "- 1074 < ?ey" using lt by linarith
    then have n: "- 1074 \<le> ilog2 y - 52" and ey: "?ey = ilog2 y - 52"
      by (simp_all add: max_def split: if_splits)
    have "?ex + 53 \<le> ilog2 y" using lt ey by linarith
    then have "(2::rat) powi (?ex + 53) \<le> 2 powi (ilog2 y)" by (rule powi2_mono)
    moreover have "fl x \<le> 2 powi (?ex + 53)" using assms(1) by (rule fl_upper)
    moreover have "2 powi (ilog2 y) \<le> fl y" using ypos n by (rule fl_lower)
    ultimately show ?thesis by linarith
  qed
qed

lemma fl_mono: "x \<le> y \<Longrightarrow> fl x \<le> fl y"
proof -
  assume xy: "x \<le> y"
  consider "0 < x" | "x \<le> 0" "0 \<le> y" | "y < 0" using xy by linarith
  then show ?thesis
  proof cases
    case 1
    then show ?thesis using xy by (rule fl_mono_pos)
  next
    case 2
    have "fl x \<le> 0" using 2(1) by (rule fl_nonpos)
    moreover have "0 \<le> fl y" using 2(2) by (rule fl_nonneg)
    ultimately show ?thesis by simp
  next
    case 3
    then have "0 < - y" "- y \<le> - x" using xy by simp_all
    then have "fl (- y) \<le> fl (- x)" by (rule fl_mono_pos)
    then show ?thesis by (simp add: fl_minus)
  qed
qed

text \<open>
  Numbers with a 53-bit significand and an exponent in range are left unchanged;
  rounding is idempotent.
\<close>

lemma fl_repr_pos:
  assumes m0: "0 < m" and m53: "m < 2 ^ 53" and e0: "- 1074 \<le> e"
  shows "fl (of_int m * 2 powi e) = of_int m * 2 powi e"
proof -
  define x :: rat where "x = of_int m * 2 powi e"
  have xpos: "0 < x" using m0 by (simp add: x_def)
  define k where "k = ilog2 x"
  define E where "E = max (k - 52) (- 1074)"
  have b: "2 powi k \<le> x" "x < 2 powi (k + 1)"
    using ilog2_bounds [OF xpos] by (simp_all add: k_def)
  have "(of_int m :: rat) < of_int (2 ^ 53)" using m53 by (simp only: of_int_less_iff)
  then have "(of_int m :: rat) < 2 ^ 53" by simp
  then have "of_int m * 2 powi e < (2::rat) ^ 53 * 2 powi e"
    by (simp only: mult_less_cancel_right_pos powi2_pos)
  also have "(2::rat) ^ 53 * 2 powi e = 2 powi (e + 53)" by (simp add: power_int_add)
  finally have "x < 2 powi (e + 53)" by (simp add: x_def)
  then have "(2::rat) powi k < 2 powi (e + 53)" using b(1) by linarith
  then have "k < e + 53"
    by (metis not_le powi2_mono leD)
  then have d0: "0 \<le> e - E" using e0 by (simp add: E_def)
  define d where "d = nat (e - E)"
  have de: "e = E + int d" using d0 by (simp add: d_def)
  have "(2::rat) powi e = 2 powi E * 2 ^ d"
    by (subst de, subst power_int_add) simp_all
  then have xs: "x = of_int (m * 2 ^ d) * 2 powi E" by (simp add: x_def)
  have "x / 2 powi E = of_int (m * 2 ^ d)" unfolding xs by simp
  then have "round_half_even (x / 2 powi E) = m * 2 ^ d" by (simp only: rhe_of_int)
  then have "fl x = of_int (m * 2 ^ d) * 2 powi E"
    using fl_pos_eq [OF xpos] by (simp add: k_def E_def)
  then have "fl x = x" using xs by simp
  then show ?thesis by (simp add: x_def)
qed

lemma fl_of_int_pos:
  assumes "0 < n" "n < 2 ^ 53"
  shows "fl (of_int n) = of_int n"
proof -
  have "fl (of_int n * 2 powi 0) = of_int n * 2 powi 0" using assms by (rule fl_repr_pos) simp
  then show ?thesis by simp
qed

lemma fl_one [simp]: "fl 1 = 1"
proof -
  have "fl (of_int 1) = of_int 1" by (rule fl_of_int_pos) simp_all
  then show ?thesis by simp
qed

lemma fl_idem_pos:
  assumes "0 < q"
  shows "fl (fl q) = fl q"
proof -
  define E where "E = max (ilog2 q - 52) (- 1074)"
  define m where "m = round_half_even (q / 2 powi E)"
  have f: "fl q = of_int m * 2 powi E"
    using fl_pos_eq [OF assms] by (simp add: E_def m_def)
  have E0: "- 1074 \<le> E" by (simp add: E_def)
  have m53: "m \<le> 2 ^ 53" using mant_upper [OF assms] by (simp add: m_def E_def)
  have m0: "0 \<le> m" unfolding m_def using assms by (intro rhe_nonneg) simp
  consider "m = 0" | "m = 2 ^ 53" | "0 < m" "m < 2 ^ 53" using m0 m53 by linarith
  then show ?thesis
  proof cases
    case 1
    then show ?thesis by (simp add: f)
  next
    case 2
    have "(of_int m :: rat) * 2 powi E = of_int (2 ^ 52) * 2 powi (E + 1)"
      by (subst power_int_add) (simp_all add: 2)
    then have f': "fl q = of_int (2 ^ 52) * 2 powi (E + 1)" using f by simp
    show ?thesis unfolding f' using E0 by (intro fl_repr_pos) simp_all
  next
    case 3
    then show ?thesis unfolding f using E0 by (intro fl_repr_pos)
  qed
qed

lemma fl_idem [simp]: "fl (fl q) = fl q"
proof -
  consider "q = 0" | "0 < q" | "q < 0" by linarith
  then show ?thesis
  proof cases
    case 1
    then show ?thesis by simp
  next
    case 2
    then show ?thesis by (rule fl_idem_pos)
  next
    case 3
    then have "fl (fl (- q)) = fl (- q)" by (intro fl_idem_pos) simp
    then show ?thesis by (simp add: fl_minus)
  qed
qed

text \<open>
  The rounding error: at most \<open>2\<^sup>-\<^sup>5\<^sup>3\<close> relative to the number, or to \<open>2\<^sup>-\<^sup>1\<^sup>0\<^sup>2\<^sup>2\<close> below the
  normal range.
\<close>

lemma fl_error_pos:
  assumes "0 < x"
  shows "\<bar>fl x - x\<bar> \<le> max x (1 / 2 ^ 1022) / 2 ^ 53"
proof -
  define E where "E = max (ilog2 x - 52) (- 1074)"
  define y where "y = x / 2 powi E"
  have x: "x = y * 2 powi E" by (simp add: y_def)
  have f: "fl x = of_int (round_half_even y) * 2 powi E"
    using fl_pos_eq [OF assms] by (simp add: E_def y_def)
  have "fl x - x = of_int (round_half_even y) * 2 powi E - y * 2 powi E"
    using f x by simp
  then have "fl x - x = (of_int (round_half_even y) - y) * 2 powi E"
    by (simp add: algebra_simps)
  then have "\<bar>fl x - x\<bar> = \<bar>of_int (round_half_even y) - y\<bar> * 2 powi E"
    by (simp add: abs_mult)
  also have "\<dots> \<le> 1 / 2 * 2 powi E"
    using rhe_err [of y] by (intro mult_right_mono) simp_all
  finally have err: "\<bar>fl x - x\<bar> \<le> 2 powi E / 2" by simp
  have "2 powi E / 2 \<le> max x (1 / 2 ^ 1022) / 2 ^ 53"
  proof (cases "- 1074 \<le> ilog2 x - 52")
    case True
    then have E: "E = ilog2 x - 52" by (simp add: E_def)
    have "(2::rat) powi E = 2 powi (ilog2 x) / 2 ^ 52" by (simp add: E power_int_diff)
    also have "\<dots> \<le> x / 2 ^ 52" using ilog2_bounds [OF assms] by (simp add: divide_right_mono)
    finally have "(2::rat) powi E / 2 \<le> x / 2 ^ 52 / 2" by (simp add: divide_right_mono)
    also have "x / 2 ^ 52 / 2 = x / 2 ^ 53" by simp
    also have "\<dots> \<le> max x (1 / 2 ^ 1022) / 2 ^ 53" by (intro divide_right_mono) simp_all
    finally show ?thesis .
  next
    case False
    then have E: "E = - 1074" by (simp add: E_def)
    have "(2::rat) powi E / 2 = 1 / 2 ^ 1022 / 2 ^ 53"
      by (simp add: E power_int_minus_divide)
    also have "\<dots> \<le> max x (1 / 2 ^ 1022) / 2 ^ 53" by (intro divide_right_mono) simp_all
    finally show ?thesis .
  qed
  with err show ?thesis by linarith
qed

lemma fl_error: "\<bar>fl x - x\<bar> \<le> max \<bar>x\<bar> (1 / 2 ^ 1022) / 2 ^ 53"
proof -
  consider "x = 0" | "0 < x" | "x < 0" by linarith
  then show ?thesis
  proof cases
    case 1
    then show ?thesis by simp
  next
    case 2
    then show ?thesis using fl_error_pos [of x] by simp
  next
    case 3
    then have "\<bar>fl (- x) - (- x)\<bar> \<le> max (- x) (1 / 2 ^ 1022) / 2 ^ 53"
      by (intro fl_error_pos) simp
    moreover have "\<bar>fl (- x) - (- x)\<bar> = \<bar>fl x - x\<bar>" by (simp add: fl_minus)
    ultimately show ?thesis using 3 by simp
  qed
qed

text \<open>The error of a rounding is at most half a unit in the last place.\<close>

lemma unit_roundoff_bounds: "0 < unit_roundoff" "unit_roundoff < 1"
  by (simp_all add: unit_roundoff_def)

lemma min_normal_bounds: "0 < min_normal" "min_normal \<le> 1"
  by (simp_all add: min_normal_def)

lemma fl_error_rel: "\<bar>fl x - x\<bar> \<le> max \<bar>x\<bar> min_normal * unit_roundoff"
  using fl_error [of x] by (simp add: unit_roundoff_def min_normal_def)

text \<open>The floats of the decimal literals that occur in the code and in the scenarios.\<close>

lemma fl_literals:
  "fl (7 / 10) = 3152519739159347 / 4503599627370496"
  "fl (4 / 10) = 3602879701896397 / 9007199254740992"
  "fl (2 / 5) = 3602879701896397 / 9007199254740992"
  "fl (85 / 100) = 7656119366529843 / 9007199254740992"
  "fl (17 / 20) = 7656119366529843 / 9007199254740992"
  "fl (3 / 5) = 5404319552844595 / 9007199254740992"
  "fl (1 / 10) = 3602879701896397 / 36028797018963968"
  "fl (4 / 5) = 3602879701896397 / 4503599627370496"
  "fl (3 / 10) = 5404319552844595 / 18014398509481984"
  by code_simp+

section \<open>The decision of an agent\<close>

text \<open>
  C9: for every agent and every perceived crowding, \<open>decide_on_pt\<close> leaves every field
  of the agent unchanged (the agent after the call is the agent before it), and an agent
  whose usual mode is not "Public Transport" gets the verdict \<open>False\<close> whatever the
  crowding is.
\<close>

theorem decide_on_pt_frame:
  "snd (decide_on_pt agent c) = agent \<and>
   (usual_mode agent \<noteq> ''Public Transport'' \<longrightarrow> fst (decide_on_pt agent c) = False)"
  by (simp add: decide_on_pt_def Let_def)

theorem decide_on_pt_frame_witness:
  "snd (decide_on_pt (CommuterAgent_init 2 ''Car'' (PInt 3) (PInt 3) None (fl (7 / 10))) (PFloat 1))
     = CommuterAgent_init 2 ''Car'' (PInt 3) (PInt 3) None (fl (7 / 10)) \<and>
   usual_mode (CommuterAgent_init 2 ''Car'' (PInt 3) (PInt 3) None (fl (7 / 10)))
     \<noteq> ''Public Transport'' \<and>
   fst (decide_on_pt (CommuterAgent_init 2 ''Car'' (PInt 3) (PInt 3) None (fl (7 / 10))) (PFloat 1))
     = False"
  using decide_on_pt_frame
    [of "CommuterAgent_init 2 ''Car'' (PInt 3) (PInt 3) None (fl (7 / 10))" "PFloat 1"]
  by (simp add: CommuterAgent_init_def)

section \<open>The recommendations\<close>

lemma balanced_not_in_rules:
  "BalancedView \<notin> set (pt_rules p)" "BalancedView \<notin> set (car_rules p)"
  "BalancedView \<notin> set (walkcycle_rules p)" "BalancedView \<notin> set (crowding_rules p ins)"
  by (auto simp add: pt_rules_def car_rules_def walkcycle_rules_def crowding_rules_def Let_def
      split: option.splits if_splits)

lemma count_list_0: "x \<notin> set xs \<Longrightarrow> count_list xs x = 0"
  by (induction xs) auto

lemma uniform_profile_mode [simp]: "UsualCommuteMode (uniform_profile mode k) = mode"
  by (simp add: uniform_profile_def)

lemma uniform_4_rules:
  "pt_rules (uniform_profile mode 4) = []" "car_rules (uniform_profile mode 4) = []"
  "walkcycle_rules (uniform_profile mode 4) = []"
  by (simp_all add: pt_rules_def car_rules_def walkcycle_rules_def uniform_profile_def)

text \<open>
  C4: for every profile and every insights argument, \<^verbatim>\<open>None\<close> included, the list returned
  by \<open>generate_recommendations\<close> is not empty; the balanced-view message occurs in it
  exactly once when no rule of the four sections produced a message (and is then the
  whole list) and not at all otherwise; a profile whose scores are all 4, with no
  insights, gets exactly that one message.
\<close>

theorem generate_recommendations_fallback:
  "generate_recommendations p ins \<noteq> [] \<and>
   count_list (generate_recommendations p ins) BalancedView =
     (if pt_rules p @ car_rules p @ walkcycle_rules p @ crowding_rules p ins = [] then 1 else 0) \<and>
   (pt_rules p @ car_rules p @ walkcycle_rules p @ crowding_rules p ins = [] \<longrightarrow>
      generate_recommendations p ins = [BalancedView]) \<and>
   (all_scores p 4 \<longrightarrow> generate_recommendations p None = [BalancedView])"
proof -
  let ?rs = "pt_rules p @ car_rules p @ walkcycle_rules p @ crowding_rules p ins"
  have notin: "BalancedView \<notin> set ?rs" by (simp add: balanced_not_in_rules)
  have g: "generate_recommendations p ins = (if ?rs = [] then [BalancedView] else ?rs)"
    by (simp add: generate_recommendations_def Let_def)
  have a: "generate_recommendations p ins \<noteq> []" unfolding g by simp
  have b: "count_list (generate_recommendations p ins) BalancedView = (if ?rs = [] then 1 else 0)"
  proof (cases "?rs = []")
    case True
    then show ?thesis unfolding g by simp
  next
    case False
    then show ?thesis unfolding g using count_list_0 [OF notin] by simp
  qed
  have c: "?rs = [] \<longrightarrow> generate_recommendations p ins = [BalancedView]" unfolding g by simp
  have d: "all_scores p 4 \<longrightarrow> generate_recommendations p None = [BalancedView]"
    by (simp add: generate_recommendations_def Let_def all_scores_def pt_rules_def car_rules_def
        walkcycle_rules_def crowding_rules_def)
  from a b c d show ?thesis by blast
qed

lemma uniform_all_scores: "all_scores (uniform_profile mode k) k"
  by (simp add: all_scores_def uniform_profile_def)

theorem generate_recommendations_fallback_witness:
  "all_scores (uniform_profile ''Car'' 4) 4 \<and>
   pt_rules (uniform_profile ''Car'' 4) @ car_rules (uniform_profile ''Car'' 4) @
     walkcycle_rules (uniform_profile ''Car'' 4) @ crowding_rules (uniform_profile ''Car'' 4) None = [] \<and>
   generate_recommendations (uniform_profile ''Car'' 4) None = [BalancedView] \<and>
   count_list (generate_recommendations (uniform_profile ''Car'' 4) None) BalancedView = 1"
  using generate_recommendations_fallback [of "uniform_profile ''Car'' 4" None]
  by (simp add: uniform_4_rules crowding_rules_def uniform_all_scores)

lemma no_level_in_rules:
  "filter is_crowding_level (pt_rules p) = []" "filter is_crowding_level (car_rules p) = []"
  "filter is_crowding_level (walkcycle_rules p) = []"
  by (simp_all add: pt_rules_def car_rules_def walkcycle_rules_def)

lemma switches_not_in_rules:
  "SwitchesObserved n \<notin> set (pt_rules p)" "SwitchesObserved n \<notin> set (car_rules p)"
  "SwitchesObserved n \<notin> set (walkcycle_rules p)"
  by (simp_all add: pt_rules_def car_rules_def walkcycle_rules_def)

text \<open>
  C2: for every profile and every insights record, that is, every dict that has the
  average crowding and the total of switches, the result is the messages of the three
  mode sections followed by exactly one crowding-level message: the alert when the
  average crowding is above the float \<^verbatim>\<open>0.7\<close>, the moderate one when it is above the float
  \<^verbatim>\<open>0.4\<close> and not above \<^verbatim>\<open>0.7\<close>, the low one otherwise. The switch-count message follows
  if and only if the total of switches is above 0 and the usual mode of the profile is
  "Public Transport". The mode sections produce neither kind of message, so the result
  holds one crowding-level message, never two and never none.
\<close>

theorem crowding_rules_exclusive:
  assumes "map_of d ''average_pt_crowding'' = Some avg"
    and "map_of d ''total_mode_switches_from_pt'' = Some sw"
  shows "generate_recommendations p (Some d) =
           pt_rules p @ car_rules p @ walkcycle_rules p @
           [if fl (7 / 10) < val avg then CrowdingAlert avg
            else if fl (4 / 10) < val avg then CrowdingModerate avg
            else CrowdingLow avg] @
           (if 0 < val sw \<and> UsualCommuteMode p = ''Public Transport''
            then [SwitchesObserved sw] else []) \<and>
         filter is_crowding_level (generate_recommendations p (Some d)) =
           [if fl (7 / 10) < val avg then CrowdingAlert avg
            else if fl (4 / 10) < val avg then CrowdingModerate avg
            else CrowdingLow avg] \<and>
         (\<exists>n. SwitchesObserved n \<in> set (generate_recommendations p (Some d))) =
           (0 < val sw \<and> UsualCommuteMode p = ''Public Transport'')"
proof -
  let ?level = "if fl (7 / 10) < val avg then CrowdingAlert avg
                else if fl (4 / 10) < val avg then CrowdingModerate avg
                else CrowdingLow avg"
  let ?extra = "if 0 < val sw \<and> UsualCommuteMode p = ''Public Transport''
                then [SwitchesObserved sw] else []"
  have ne: "d \<noteq> []" using assms(1) by auto
  have cr: "crowding_rules p (Some d) = ?level # ?extra"
    using ne by (simp add: crowding_rules_def Let_def dict_get_def assms py_lt_def)
  have g: "generate_recommendations p (Some d) =
             pt_rules p @ car_rules p @ walkcycle_rules p @ [?level] @ ?extra"
    by (simp add: generate_recommendations_def Let_def cr)
  have a: "filter is_crowding_level (generate_recommendations p (Some d)) = [?level]"
    unfolding g by (simp add: no_level_in_rules)
  have b: "(\<exists>n. SwitchesObserved n \<in> set (generate_recommendations p (Some d))) =
           (0 < val sw \<and> UsualCommuteMode p = ''Public Transport'')"
    unfolding g using switches_not_in_rules [of _ p] by auto
  from g a b show ?thesis by (simp only:)
qed

theorem crowding_rules_exclusive_witness:
  "map_of [(''average_pt_crowding'', PFloat (fl (85 / 100))),
           (''total_mode_switches_from_pt'', PInt 15)] ''average_pt_crowding''
     = Some (PFloat (fl (85 / 100))) \<and>
   map_of [(''average_pt_crowding'', PFloat (fl (85 / 100))),
           (''total_mode_switches_from_pt'', PInt 15)] ''total_mode_switches_from_pt''
     = Some (PInt 15) \<and>
   generate_recommendations (uniform_profile ''Public Transport'' 4)
        (Some [(''average_pt_crowding'', PFloat (fl (85 / 100))),
               (''total_mode_switches_from_pt'', PInt 15)])
     = [CrowdingAlert (PFloat (fl (85 / 100))), SwitchesObserved (PInt 15)] \<and>
   generate_recommendations (uniform_profile ''Car'' 4)
        (Some [(''average_pt_crowding'', PFloat (fl (3 / 10))),
               (''total_mode_switches_from_pt'', PInt 15)])
     = [CrowdingLow (PFloat (fl (3 / 10)))] \<and>
   generate_recommendations (uniform_profile ''Public Transport'' 4)
        (Some [(''average_pt_crowding'', PFloat (fl (3 / 5))),
               (''total_mode_switches_from_pt'', PInt 0)])
     = [CrowdingModerate (PFloat (fl (3 / 5)))]"
  using crowding_rules_exclusive
    [of "[(''average_pt_crowding'', PFloat (fl (85 / 100))),
          (''total_mode_switches_from_pt'', PInt 15)]" "PFloat (fl (85 / 100))" "PInt 15"
        "uniform_profile ''Public Transport'' 4"]
    crowding_rules_exclusive
    [of "[(''average_pt_crowding'', PFloat (fl (3 / 10))),
          (''total_mode_switches_from_pt'', PInt 15)]" "PFloat (fl (3 / 10))" "PInt 15"
        "uniform_profile ''Car'' 4"]
    crowding_rules_exclusive
    [of "[(''average_pt_crowding'', PFloat (fl (3 / 5))),
          (''total_mode_switches_from_pt'', PInt 0)]" "PFloat (fl (3 / 5))" "PInt 0"
        "uniform_profile ''Public Transport'' 4"]
  by (simp add: uniform_4_rules fl_literals)

section \<open>The verdict of a PT-usual agent\<close>

text \<open>
  C1: for a PT-usual agent, \<open>decide_on_pt\<close> computes the crowding impact
  \<^verbatim>\<open>max(0, c - t) * 2\<close>, the adjusted PBC \<^verbatim>\<open>max(1, p - impact * 3)\<close> and the adjusted
  attitude \<^verbatim>\<open>max(1, a - impact * 2)\<close> in Python's arithmetic, and returns \<open>False\<close> if
  one of the adjusted scores is below 3 and \<open>True\<close> otherwise. The impact is never
  negative and the adjusted scores are never below 1.
\<close>

theorem decide_on_pt_rule:
  assumes "usual_mode agent = ''Public Transport''"
  shows "let t = crowding_tolerance agent; p = pbc_pt agent; a = attitude_pt agent;
             crowding_impact = py_mul (py_max (PInt 0) (py_sub c t)) (PInt 2);
             adjusted_pbc = py_max (PInt 1) (py_sub p (py_mul crowding_impact (PInt 3)));
             adjusted_attitude = py_max (PInt 1) (py_sub a (py_mul crowding_impact (PInt 2)))
         in fst (decide_on_pt agent c) = (\<not> (val adjusted_pbc < 3 \<or> val adjusted_attitude < 3)) \<and>
            0 \<le> val crowding_impact \<and> 1 \<le> val adjusted_pbc \<and> 1 \<le> val adjusted_attitude"
proof -
  have max1: "1 \<le> val (py_max (PInt 1) x)" for x
    by (simp add: py_max_def py_lt_def)
  have max0: "0 \<le> val (py_max (PInt 0) x)" for x
    by (simp add: py_max_def py_lt_def)
  have mul2: "0 \<le> val x \<Longrightarrow> 0 \<le> val (py_mul x (PInt 2))" for x
  proof (cases x)
    case (PInt n)
    assume "0 \<le> val x"
    then show ?thesis using PInt by simp
  next
    case (PFloat y)
    assume "0 \<le> val x"
    then have "0 \<le> y * fl 2" using PFloat fl_nonneg [of 2] by simp
    then show ?thesis using PFloat by (simp add: fl_nonneg)
  qed
  have imp: "0 \<le> val (py_mul (py_max (PInt 0) (py_sub c (crowding_tolerance agent))) (PInt 2))"
    by (rule mul2) (rule max0)
  show ?thesis
    using assms imp max1 by (simp add: decide_on_pt_def Let_def py_lt_def)
qed

lemma scenario_arith:
  "py_mul (py_max (PInt 0) (py_sub (PFloat 1) (PFloat (fl (3 / 5))))) (PInt 2)
     = PFloat (fl (4 / 5))"
  "py_max (PInt 1) (py_sub (PInt 5) (py_mul (PFloat (fl (4 / 5))) (PInt 3)))
     = PFloat (1463669878895411 / 562949953421312)"
  by code_simp+

lemma scenario_agent_fields:
  "usual_mode scenario_agent = ''Public Transport''" "pbc_pt scenario_agent = PInt 5"
  "attitude_pt scenario_agent = PInt 5" "crowding_tolerance scenario_agent = PFloat (fl (3 / 5))"
  by (simp_all add: scenario_agent_def CommuterAgent_init_def)

theorem decide_on_pt_rule_witness:
  "usual_mode scenario_agent = ''Public Transport'' \<and>
   py_mul (py_max (PInt 0) (py_sub (PFloat 1) (crowding_tolerance scenario_agent))) (PInt 2)
     = PFloat (fl (4 / 5)) \<and>
   fst (decide_on_pt scenario_agent (PFloat 1)) = False"
proof -
  have h: "usual_mode scenario_agent = ''Public Transport''" by (simp add: scenario_agent_fields)
  have "fst (decide_on_pt scenario_agent (PFloat 1)) = False"
    using decide_on_pt_rule [OF h, of "PFloat 1"]
    by (simp only: scenario_agent_fields scenario_arith Let_def) simp
  then show ?thesis using h by (simp only: scenario_agent_fields scenario_arith)
qed

section \<open>The transit line\<close>

lemma min_one_lipschitz: "\<bar>min 1 a - min 1 b\<bar> \<le> \<bar>a - b\<bar>" for a b :: rat
  by (simp add: min_def abs_if)

lemma py_min_one: "py_min (PFloat 1) (PFloat x) = PFloat (min 1 x)"
  by (simp add: py_min_def py_lt_def min_def)

text \<open>
  C7: the operations of the line return and never raise, for every capacity and every
  rider counter below \<open>2\<^sup>1\<^sup>0\<^sup>2\<^sup>3\<close> in absolute value (beyond the float range the division
  of Python raises \<^verbatim>\<open>OverflowError\<close>, which is outside the model). \<open>get_crowding_level\<close>
  returns 0.0 when the capacity is 0, so the division is never by zero, and otherwise the
  smaller of 1 and the float of \<open>riders / capacity\<close>, which is within half a unit in the
  last place of the exact quotient; the result is never above 1, and it is not negative
  when capacity and riders are not negative. \<open>remove_rider\<close> leaves
  \<^verbatim>\<open>max(0, riders - 1)\<close> riders, which is never negative; \<open>add_rider\<close> adds one rider and
  \<open>reset_riders\<close> leaves none; a new line has no rider, and no operation changes the
  capacity.
\<close>

theorem transit_line_total:
  assumes "\<bar>current_riders line\<bar> < 2 ^ 1023"
  shows "get_crowding_level line =
           Inr (PFloat (if capacity line = 0 then 0
                else min 1 (fl (of_int (current_riders line) / of_int (capacity line))))) \<and>
   (\<forall>r. get_crowding_level line = Inr r \<longrightarrow>
        val r \<le> 1 \<and>
        (0 \<le> capacity line \<and> 0 \<le> current_riders line \<longrightarrow> 0 \<le> val r) \<and>
        (capacity line \<noteq> 0 \<longrightarrow>
           \<bar>val r - min 1 (of_int (current_riders line) / of_int (capacity line))\<bar>
             \<le> max \<bar>of_int (current_riders line) / of_int (capacity line)\<bar> min_normal
                 * unit_roundoff)) \<and>
   current_riders (remove_rider line) = max 0 (current_riders line - 1) \<and>
   0 \<le> current_riders (remove_rider line) \<and>
   current_riders (add_rider line) = current_riders line + 1 \<and>
   current_riders (reset_riders line) = 0 \<and>
   current_riders (PublicTransportLine_init n c) = 0 \<and>
   capacity (PublicTransportLine_init n c) = c \<and>
   capacity (remove_rider line) = capacity line \<and>
   capacity (add_rider line) = capacity line \<and>
   capacity (reset_riders line) = capacity line"
proof -
  let ?x = "of_int (current_riders line) / of_int (capacity line) :: rat"
  define r where "r = (if capacity line = 0 then 0 else min 1 (fl ?x))"
  have g: "get_crowding_level line = Inr (PFloat r)"
    by (simp add: get_crowding_level_def r_def py_min_one)
  have le: "r \<le> 1" by (simp add: r_def)
  have nn: "0 \<le> capacity line \<and> 0 \<le> current_riders line \<longrightarrow> 0 \<le> r"
  proof
    assume "0 \<le> capacity line \<and> 0 \<le> current_riders line"
    then have "0 \<le> ?x" by simp
    then have "0 \<le> fl ?x" by (rule fl_nonneg)
    then show "0 \<le> r" by (simp add: r_def)
  qed
  have er: "capacity line \<noteq> 0 \<longrightarrow>
      \<bar>r - min 1 ?x\<bar> \<le> max \<bar>?x\<bar> min_normal * unit_roundoff"
  proof
    assume "capacity line \<noteq> 0"
    then have "r = min 1 (fl ?x)" by (simp add: r_def)
    then have "\<bar>r - min 1 ?x\<bar> \<le> \<bar>fl ?x - ?x\<bar>" by (simp only: min_one_lipschitz)
    also have "\<dots> \<le> max \<bar>?x\<bar> min_normal * unit_roundoff" by (rule fl_error_rel)
    finally show "\<bar>r - min 1 ?x\<bar> \<le> max \<bar>?x\<bar> min_normal * unit_roundoff" .
  qed
  have ops: "current_riders (remove_rider line) = max 0 (current_riders line - 1) \<and>
   0 \<le> current_riders (remove_rider line) \<and>
   current_riders (add_rider line) = current_riders line + 1 \<and>
   current_riders (reset_riders line) = 0 \<and>
   current_riders (PublicTransportLine_init n c) = 0 \<and>
   capacity (PublicTransportLine_init n c) = c \<and>
   capacity (remove_rider line) = capacity line \<and>
   capacity (add_rider line) = capacity line \<and>
   capacity (reset_riders line) = capacity line"
    by (simp add: remove_rider_def add_rider_def reset_riders_def PublicTransportLine_init_def)
  have all: "\<forall>r'. get_crowding_level line = Inr r' \<longrightarrow>
        val r' \<le> 1 \<and>
        (0 \<le> capacity line \<and> 0 \<le> current_riders line \<longrightarrow> 0 \<le> val r') \<and>
        (capacity line \<noteq> 0 \<longrightarrow>
           \<bar>val r' - min 1 ?x\<bar> \<le> max \<bar>?x\<bar> min_normal * unit_roundoff)"
    using le nn er by (simp add: g)
  from g all ops show ?thesis unfolding r_def by blast
qed

lemma fl_ratios: "fl (1 / 4) = 1 / 4" "fl (5 / 3) = 7505999378950827 / 4503599627370496"
  by code_simp+

theorem transit_line_total_witness:
  "\<bar>1 :: int\<bar> < 2 ^ 1023 \<and> \<bar>3 :: int\<bar> < 2 ^ 1023 \<and> \<bar>5 :: int\<bar> < 2 ^ 1023 \<and>
   \<bar>0 :: int\<bar> < 2 ^ 1023 \<and>
   get_crowding_level \<lparr> name = ''Main PT Line'', capacity = 4, current_riders = 1 \<rparr>
     = Inr (PFloat (1 / 4)) \<and>
   get_crowding_level \<lparr> name = ''Main PT Line'', capacity = 3, current_riders = 3 \<rparr>
     = Inr (PFloat 1) \<and>
   get_crowding_level \<lparr> name = ''Main PT Line'', capacity = 3, current_riders = 5 \<rparr>
     = Inr (PFloat 1) \<and>
   get_crowding_level \<lparr> name = ''Main PT Line'', capacity = 0, current_riders = 3 \<rparr>
     = Inr (PFloat 0) \<and>
   current_riders (remove_rider \<lparr> name = ''Main PT Line'', capacity = 3, current_riders = 0 \<rparr>)
     = 0 \<and>
   current_riders (remove_rider \<lparr> name = ''Main PT Line'', capacity = 3, current_riders = 5 \<rparr>)
     = 4"
  using transit_line_total [of "\<lparr> name = ''Main PT Line'', capacity = 4, current_riders = 1 \<rparr>"]
    transit_line_total [of "\<lparr> name = ''Main PT Line'', capacity = 3, current_riders = 3 \<rparr>"]
    transit_line_total [of "\<lparr> name = ''Main PT Line'', capacity = 3, current_riders = 5 \<rparr>"]
    transit_line_total [of "\<lparr> name = ''Main PT Line'', capacity = 0, current_riders = 3 \<rparr>"]
    transit_line_total [of "\<lparr> name = ''Main PT Line'', capacity = 3, current_riders = 0 \<rparr>"]
  by (simp add: fl_ratios)

section \<open>The simulation\<close>

lemma get_crowding_level_eq:
  "get_crowding_level l = Inr (crowding_of (current_riders l) (capacity l))"
  by (simp add: get_crowding_level_def crowding_of_def)

lemma decide_on_pt_snd: "decide_on_pt a c = (fst (decide_on_pt a c), a)"
  by (simp add: decide_on_pt_def Let_def)

lemma decide_on_pt_current_mode:
  "fst (decide_on_pt (a\<lparr>current_mode := m\<rparr>) c) = fst (decide_on_pt a c)"
  by (simp add: decide_on_pt_def Let_def)

lemma respond_eq:
  "respond c us stay sw =
     (map (mark_switch c) us, stay + stayers c us, sw + switchers c us)"
proof (induction us arbitrary: stay sw)
  case Nil
  then show ?case by (simp add: stayers_def switchers_def)
next
  case (Cons a us)
  obtain v where d: "decide_on_pt a c = (v, a)" using decide_on_pt_snd [of a c] by blast
  show ?case
    by (cases v) (simp_all add: d Cons.IH mark_switch_def stayers_def switchers_def)
qed

lemma mark_switch_verdict:
  "fst (decide_on_pt (mark_switch c' a) c) = fst (decide_on_pt a c)"
  by (simp add: mark_switch_def decide_on_pt_current_mode)

lemma switchers_mark: "switchers c (map (mark_switch c') us) = switchers c us"
  by (induction us) (simp_all add: switchers_def mark_switch_verdict)

lemma stayers_mark: "stayers c (map (mark_switch c') us) = stayers c us"
  by (induction us) (simp_all add: stayers_def mark_switch_verdict)

lemma sim_step_eq:
  "sim_step st =
     Inr \<lparr> pt_line = (pt_line st)\<lparr>current_riders :=
               stayers (crowding_of (int (length (pt_users st))) (capacity (pt_line st)))
                 (pt_users st)\<rparr>,
           pt_users = map (mark_switch
               (crowding_of (int (length (pt_users st))) (capacity (pt_line st)))) (pt_users st),
           mode_switches_total = mode_switches_total st +
               switchers (crowding_of (int (length (pt_users st))) (capacity (pt_line st)))
                 (pt_users st),
           crowding_levels_over_time = crowding_levels_over_time st @
               [crowding_of (int (length (pt_users st))) (capacity (pt_line st))],
           printed = printed st @
               [(int (length (pt_users st)),
                 crowding_of (int (length (pt_users st))) (capacity (pt_line st)),
                 stayers (crowding_of (int (length (pt_users st))) (capacity (pt_line st)))
                   (pt_users st),
                 crowding_of
                   (stayers (crowding_of (int (length (pt_users st))) (capacity (pt_line st)))
                      (pt_users st))
                   (capacity (pt_line st)))] \<rparr>"
  by (simp add: sim_step_def Let_def get_crowding_level_eq respond_eq reset_riders_def)

lemma sim_loop_eq:
  "\<exists>st'. sim_loop n st = Inr st' \<and>
     capacity (pt_line st') = capacity (pt_line st) \<and>
     length (pt_users st') = length (pt_users st) \<and>
     (\<forall>c. switchers c (pt_users st') = switchers c (pt_users st)) \<and>
     (\<forall>c. stayers c (pt_users st') = stayers c (pt_users st)) \<and>
     map final_of (printed st') = map final_of (printed st) @
        replicate n (crowding_of
          (stayers (crowding_of (int (length (pt_users st))) (capacity (pt_line st))) (pt_users st))
          (capacity (pt_line st))) \<and>
     mode_switches_total st' = mode_switches_total st +
        int n * switchers (crowding_of (int (length (pt_users st))) (capacity (pt_line st)))
                  (pt_users st) \<and>
     crowding_levels_over_time st' = crowding_levels_over_time st @
        replicate n (crowding_of (int (length (pt_users st))) (capacity (pt_line st))) \<and>
     map perceived_of (printed st') = map perceived_of (printed st) @
        replicate n (crowding_of (int (length (pt_users st))) (capacity (pt_line st))) \<and>
     map attempting_of (printed st') = map attempting_of (printed st) @
        replicate n (int (length (pt_users st)))"
proof (induction n arbitrary: st)
  case 0
  then show ?case by simp
next
  case (Suc n)
  let ?q = "crowding_of (int (length (pt_users st))) (capacity (pt_line st))"
  obtain st1 where s1: "sim_step st = Inr st1"
    and c1: "capacity (pt_line st1) = capacity (pt_line st)"
    and u1: "pt_users st1 = map (mark_switch ?q) (pt_users st)"
    and m1: "mode_switches_total st1 = mode_switches_total st + switchers ?q (pt_users st)"
    and l1: "crowding_levels_over_time st1 = crowding_levels_over_time st @ [?q]"
    and p1: "map perceived_of (printed st1) = map perceived_of (printed st) @ [?q]"
    and a1: "map attempting_of (printed st1) =
               map attempting_of (printed st) @ [int (length (pt_users st))]"
    and f1: "map final_of (printed st1) = map final_of (printed st) @
               [crowding_of (stayers ?q (pt_users st)) (capacity (pt_line st))]"
    by (simp add: sim_step_eq)
  have len1: "length (pt_users st1) = length (pt_users st)" by (simp add: u1)
  have sw1: "switchers c (pt_users st1) = switchers c (pt_users st)" for c
    by (simp add: u1 switchers_mark)
  have sy1: "stayers c (pt_users st1) = stayers c (pt_users st)" for c
    by (simp add: u1 stayers_mark)
  have q1: "crowding_of (int (length (pt_users st1))) (capacity (pt_line st1)) = ?q"
    by (simp add: len1 c1)
  from Suc.IH [of st1] obtain st' where
    r: "sim_loop n st1 = Inr st'"
    "capacity (pt_line st') = capacity (pt_line st1)"
    "length (pt_users st') = length (pt_users st1)"
    "\<forall>c. switchers c (pt_users st') = switchers c (pt_users st1)"
    "mode_switches_total st' = mode_switches_total st1 + int n * switchers ?q (pt_users st1)"
    "crowding_levels_over_time st' = crowding_levels_over_time st1 @ replicate n ?q"
    "map perceived_of (printed st') = map perceived_of (printed st1) @ replicate n ?q"
    "map attempting_of (printed st') = map attempting_of (printed st1) @
        replicate n (int (length (pt_users st1)))"
    "\<forall>c. stayers c (pt_users st') = stayers c (pt_users st1)"
    "map final_of (printed st') = map final_of (printed st1) @
        replicate n (crowding_of (stayers ?q (pt_users st1)) (capacity (pt_line st1)))"
    unfolding q1 by blast
  have A: "sim_loop (Suc n) st = Inr st'" by (simp add: s1 r(1))
  have B: "mode_switches_total st' = mode_switches_total st +
        int (Suc n) * switchers ?q (pt_users st)"
    by (simp add: r(5) m1 sw1 algebra_simps)
  have C: "crowding_levels_over_time st' = crowding_levels_over_time st @ replicate (Suc n) ?q"
    by (simp add: r(6) l1)
  have D: "map perceived_of (printed st') = map perceived_of (printed st) @ replicate (Suc n) ?q"
    by (simp add: r(7) p1)
  have E: "map attempting_of (printed st') = map attempting_of (printed st) @
        replicate (Suc n) (int (length (pt_users st)))"
    by (simp add: r(8) a1 len1)
  have F: "capacity (pt_line st') = capacity (pt_line st)" by (simp add: r(2) c1)
  have G: "length (pt_users st') = length (pt_users st)" by (simp add: r(3) len1)
  have H: "\<forall>c. switchers c (pt_users st') = switchers c (pt_users st)" by (simp add: r(4) sw1)
  have I: "\<forall>c. stayers c (pt_users st') = stayers c (pt_users st)" by (simp add: r(9) sy1)
  have J: "map final_of (printed st') = map final_of (printed st) @
        replicate (Suc n) (crowding_of (stayers ?q (pt_users st)) (capacity (pt_line st)))"
    by (simp add: r(10) f1 sy1 c1)
  from A B C D E F G H I J show ?case by blast
qed

lemma enumerate_modes:
  "map usual_mode (map (\<lambda>(i, row).
            CommuterAgent_init (CommuterID row) (UsualCommuteMode row)
              (PInt (Attitude_PT_Score row)) (PInt (PBC_PT_Score row)) None (tol i))
         (enumerate n df)) = map UsualCommuteMode df"
  by (induction df arbitrary: n) (simp_all add: CommuterAgent_init_def)

lemma make_agents_modes: "map usual_mode (make_agents tol df) = map UsualCommuteMode df"
  by (simp only: make_agents_def enumerate_modes)

lemma length_filter_map:
  "length (filter (\<lambda>x. f x = m) xs) = length (filter (\<lambda>y. y = m) (map f xs))"
  by (induction xs) simp_all

lemma init_users_length: "int (length (pt_users (init_state tol df C))) = pt_usual_count df"
proof -
  have "length (filter (\<lambda>agent. usual_mode agent = ''Public Transport'') (make_agents tol df))
        = length (filter (\<lambda>y. y = ''Public Transport'') (map usual_mode (make_agents tol df)))"
    by (rule length_filter_map)
  also have "\<dots> = length (filter (\<lambda>y. y = ''Public Transport'') (map UsualCommuteMode df))"
    by (simp only: make_agents_modes)
  also have "\<dots> = length (filter (\<lambda>row. UsualCommuteMode row = ''Public Transport'') df)"
    by (rule length_filter_map [symmetric])
  finally show ?thesis by (simp add: init_state_def pt_usual_count_def)
qed

lemma init_state_fields:
  "capacity (pt_line (init_state tol df C)) = C"
  "mode_switches_total (init_state tol df C) = 0"
  "crowding_levels_over_time (init_state tol df C) = []"
  "printed (init_state tol df C) = []"
  by (simp_all add: init_state_def PublicTransportLine_init_def)

lemma simulate_eq:
  "\<exists>st. simulate tol df C N = Inr st \<and>
     crowding_levels_over_time st = replicate (nat N) (crowding_of (pt_usual_count df) C) \<and>
     map perceived_of (printed st) = replicate (nat N) (crowding_of (pt_usual_count df) C) \<and>
     map attempting_of (printed st) = replicate (nat N) (pt_usual_count df) \<and>
     map final_of (printed st) = replicate (nat N)
       (crowding_of (stayers (crowding_of (pt_usual_count df) C) (pt_users (init_state tol df C)))
          C) \<and>
     mode_switches_total st =
       int (nat N) * switchers (crowding_of (pt_usual_count df) C) (pt_users (init_state tol df C))"
  using sim_loop_eq [of "nat N" "init_state tol df C"]
  by (simp only: simulate_def init_users_length init_state_fields) auto

lemma crowding_of_float: "\<exists>x. crowding_of P C = PFloat x \<and> fl x = x"
  by (simp add: crowding_of_def py_min_def)

lemma average_nil: "average [] = Inr (PInt 0)"
  by (simp add: average_def)

lemma foldl_add_float:
  "\<exists>z. foldl py_add (PFloat s) (replicate n (PFloat x)) = PFloat z"
  by (induction n arbitrary: s) simp_all

lemma foldl_add_mono:
  "s \<le> t \<Longrightarrow> x \<le> y \<Longrightarrow>
   val (foldl py_add (PFloat s) (replicate n (PFloat x)))
     \<le> val (foldl py_add (PFloat t) (replicate n (PFloat y)))"
proof (induction n arbitrary: s t)
  case 0
  then show ?case by simp
next
  case (Suc n)
  have "fl (s + x) \<le> fl (t + y)" using Suc.prems by (intro fl_mono) simp
  then show ?case using Suc.IH [of "fl (s + x)" "fl (t + y)"] Suc.prems by simp
qed

lemma py_sum_replicate:
  "py_sum (replicate (Suc n) (PFloat x)) = foldl py_add (PFloat (fl x)) (replicate n (PFloat x))"
  by (simp add: py_sum_def)

lemma fl_of_nat_pos: "0 < n \<Longrightarrow> 0 < fl (of_int (int n))"
proof -
  assume "0 < n"
  then have "(1::rat) \<le> of_int (int n)" by simp
  then have "fl 1 \<le> fl (of_int (int n))" by (rule fl_mono)
  then show ?thesis by simp
qed

lemma average_replicate:
  "average (replicate (Suc n) (PFloat x)) =
     Inr (PFloat (fl (val (foldl py_add (PFloat (fl x)) (replicate n (PFloat x)))
                      / fl (of_int (int (Suc n))))))"
proof -
  obtain z where z: "foldl py_add (PFloat (fl x)) (replicate n (PFloat x)) = PFloat z"
    using foldl_add_float by blast
  have "average (replicate (Suc n) (PFloat x)) =
          py_truediv (py_sum (replicate (Suc n) (PFloat x))) (PInt (int (Suc n)))"
    by (simp add: average_def)
  also have "\<dots> = Inr (PFloat (fl (z / fl (of_int (int (Suc n))))))"
    unfolding py_sum_replicate z by simp
  finally show ?thesis by (simp add: z)
qed

lemma average_mono:
  assumes "x \<le> y"
  shows "\<exists>a b. average (replicate (Suc n) (PFloat x)) = Inr a \<and>
               average (replicate (Suc n) (PFloat y)) = Inr b \<and> val a \<le> val b"
proof -
  let ?d = "fl (of_int (int (Suc n)))"
  have d: "0 < ?d" by (rule fl_of_nat_pos) simp
  have "fl x \<le> fl y" using assms by (rule fl_mono)
  then have "val (foldl py_add (PFloat (fl x)) (replicate n (PFloat x)))
      \<le> val (foldl py_add (PFloat (fl y)) (replicate n (PFloat y)))"
    using assms by (rule foldl_add_mono)
  then have "val (foldl py_add (PFloat (fl x)) (replicate n (PFloat x))) / ?d
      \<le> val (foldl py_add (PFloat (fl y)) (replicate n (PFloat y))) / ?d"
    using d by (simp add: divide_right_mono)
  then have "fl (val (foldl py_add (PFloat (fl x)) (replicate n (PFloat x))) / ?d)
      \<le> fl (val (foldl py_add (PFloat (fl y)) (replicate n (PFloat y))) / ?d)"
    by (rule fl_mono)
  then show ?thesis by (simp only: average_replicate) simp
qed

lemma average_single: "fl x = x \<Longrightarrow> average [PFloat x] = Inr (PFloat x)"
  using average_replicate [of 0 x] by simp

lemma average_zeros: "average (replicate (Suc n) (PFloat 0)) = Inr (PFloat 0)"
proof -
  have "foldl py_add (PFloat 0) (replicate m (PFloat 0)) = PFloat 0" for m
    by (induction m) simp_all
  then show ?thesis unfolding average_replicate by simp
qed

lemma run_eq:
  "run_crowding_simulation tol df C N =
     (case average (replicate (nat N) (crowding_of (pt_usual_count df) C)) of
        Inl e \<Rightarrow> Inl e
      | Inr a \<Rightarrow>
          Inr [(''average_pt_crowding'', a),
               (''total_mode_switches_from_pt'',
                PInt (int (nat N) * switchers (crowding_of (pt_usual_count df) C)
                                      (pt_users (init_state tol df C)))),
               (''simulated_pt_capacity'', PInt C),
               (''num_sim_steps'', PInt N)])"
proof -
  obtain st where "simulate tol df C N = Inr st"
    "crowding_levels_over_time st = replicate (nat N) (crowding_of (pt_usual_count df) C)"
    "mode_switches_total st =
       int (nat N) * switchers (crowding_of (pt_usual_count df) C) (pt_users (init_state tol df C))"
    using simulate_eq [of tol df C N] by blast
  then show ?thesis by (simp add: run_crowding_simulation_def split: sum.splits)
qed

lemma average_total: "\<exists>a. average (replicate n (crowding_of P C)) = Inr a"
proof -
  obtain x where x: "crowding_of P C = PFloat x" using crowding_of_float by blast
  show ?thesis
  proof (cases n)
    case 0
    then show ?thesis by (simp add: average_nil)
  next
    case (Suc m)
    then show ?thesis by (simp only: x average_replicate) simp
  qed
qed

text \<open>The float sum and the float average against the exact ones.\<close>

lemma py_sum_snoc: "py_sum (xs @ [x]) = py_add (py_sum xs) x"
  by (simp add: py_sum_def)

lemma py_add_float: "py_add a (PFloat x) = PFloat (fl (to_float a + x))"
  by (cases a) simp_all

lemma to_float_py_sum: "to_float (py_sum (map PFloat xs)) = val (py_sum (map PFloat xs))"
proof (cases xs rule: rev_cases)
  case Nil
  then show ?thesis by (simp add: py_sum_def)
next
  case (snoc ys y)
  then show ?thesis by (simp add: py_sum_snoc py_add_float)
qed

lemma val_py_sum_snoc:
  "val (py_sum (map PFloat xs @ [PFloat x])) = fl (val (py_sum (map PFloat xs)) + x)"
  by (simp add: py_sum_snoc py_add_float to_float_py_sum)

lemma bound_step:
  fixes u M p K :: rat
  shows "((1 + u) * p - 1) * (K + 1) * M =
     (1 + u) * ((p - 1) * K * M) + u * ((K + 1) * M) + M * (1 + u) * (p - 1)"
  by (simp add: algebra_simps)

lemma py_sum_error:
  assumes "\<forall>x\<in>set xs. \<bar>x\<bar> \<le> M" "min_normal \<le> M"
  shows "\<bar>val (py_sum (map PFloat xs)) - sum_list xs\<bar>
           \<le> ((1 + unit_roundoff) ^ length xs - 1) * of_nat (length xs) * M"
  using assms(1)
proof (induction xs rule: rev_induct)
  case Nil
  then show ?case by (simp add: py_sum_def)
next
  case (snoc x xs)
  define u where "u = unit_roundoff"
  define K :: rat where "K = of_nat (length xs)"
  define p where "p = (1 + u) ^ length xs"
  define s where "s = val (py_sum (map PFloat xs))"
  define E where "E = \<bar>s - sum_list xs\<bar>"
  have u: "0 < u" using unit_roundoff_bounds by (simp add: u_def)
  have M: "0 < M" using assms(2) min_normal_bounds(1) by linarith
  have K: "0 \<le> K" by (simp add: K_def)
  have p: "1 \<le> p" unfolding p_def using u by (intro one_le_power) simp
  have x: "\<bar>x\<bar> \<le> M" using snoc.prems by simp
  have "\<forall>y\<in>set xs. \<bar>y\<bar> \<le> M" using snoc.prems by simp
  then have IH: "E \<le> (p - 1) * K * M"
    using snoc.IH by (simp add: E_def s_def p_def K_def u_def)
  have sl: "\<bar>sum_list xs\<bar> \<le> K * M"
  proof -
    have "\<bar>sum_list ys\<bar> \<le> of_nat (length ys) * M" if "\<forall>y\<in>set ys. \<bar>y\<bar> \<le> M" for ys
      using that
    proof (induction ys)
      case Nil
      then show ?case by simp
    next
      case (Cons a ys)
      then have "\<bar>a\<bar> \<le> M" "\<bar>sum_list ys\<bar> \<le> of_nat (length ys) * M" by simp_all
      then show ?case by (simp add: algebra_simps)
    qed
    then show ?thesis using \<open>\<forall>y\<in>set xs. \<bar>y\<bar> \<le> M\<close> by (simp add: K_def)
  qed
  define y where "y = s + x"
  have "\<bar>y\<bar> \<le> E + \<bar>sum_list xs\<bar> + \<bar>x\<bar>" unfolding y_def E_def by linarith
  then have y: "\<bar>y\<bar> \<le> E + (K + 1) * M" using sl x by (simp add: algebra_simps)
  have "0 \<le> K * M" using K M by simp
  then have "M \<le> (K + 1) * M" by (simp add: algebra_simps)
  moreover have "0 \<le> E" by (simp add: E_def)
  ultimately have "min_normal \<le> E + (K + 1) * M" using assms(2) by linarith
  then have mx: "max \<bar>y\<bar> min_normal \<le> E + (K + 1) * M" using y by simp
  have "\<bar>fl y - y\<bar> \<le> max \<bar>y\<bar> min_normal * u"
    unfolding u_def by (rule fl_error_rel)
  also have "\<dots> \<le> (E + (K + 1) * M) * u"
    using mx u by (simp only: mult_le_cancel_right_pos)
  finally have f: "\<bar>fl y - y\<bar> \<le> (E + (K + 1) * M) * u" .
  have "val (py_sum (map PFloat (xs @ [x]))) - sum_list (xs @ [x]) = (fl y - y) + (s - sum_list xs)"
    by (simp add: val_py_sum_snoc y_def s_def)
  then have "\<bar>val (py_sum (map PFloat (xs @ [x]))) - sum_list (xs @ [x])\<bar>
      \<le> \<bar>fl y - y\<bar> + E"
    unfolding E_def by linarith
  also have "\<dots> \<le> (1 + u) * E + u * ((K + 1) * M)"
    using f by (simp add: algebra_simps)
  also have "\<dots> \<le> (1 + u) * ((p - 1) * K * M) + u * ((K + 1) * M)"
    using IH u by simp
  also have "\<dots> \<le> (1 + u) * ((p - 1) * K * M) + u * ((K + 1) * M) + M * (1 + u) * (p - 1)"
    using M u p by simp
  also have "\<dots> = ((1 + u) * p - 1) * (K + 1) * M"
    by (rule bound_step [symmetric])
  also have "\<dots> = ((1 + unit_roundoff) ^ length (xs @ [x]) - 1) * of_nat (length (xs @ [x])) * M"
    by (simp add: p_def K_def u_def)
  finally show ?case .
qed


lemma sum_list_abs_le:
  fixes M :: rat
  shows "\<forall>y\<in>set ys. \<bar>y\<bar> \<le> M \<Longrightarrow> \<bar>sum_list ys\<bar> \<le> of_nat (length ys) * M"
proof (induction ys)
  case Nil
  then show ?case by simp
next
  case (Cons a ys)
  then have "\<bar>a\<bar> \<le> M" "\<bar>sum_list ys\<bar> \<le> of_nat (length ys) * M" by simp_all
  then show ?case by (simp add: algebra_simps)
qed

lemma final_step:
  fixes u p M :: rat
  assumes "u < 1"
  shows "u * M + (1 + u) * ((p - 1 + u) * M / (1 - u)) = M * ((1 + u) * p / (1 - u) - 1)"
proof -
  have "1 - u \<noteq> 0" using assms by simp
  then show ?thesis by (simp add: field_simps)
qed

lemma split_step:
  fixes s S N F :: rat
  assumes "N \<noteq> 0" "F \<noteq> 0"
  shows "s / F - S / N = (s - S) / F + S * (N - F) / (N * F)"
  using assms by (simp add: field_simps)

lemma average_floats:
  "xs \<noteq> [] \<Longrightarrow>
   average (map PFloat xs) =
     Inr (PFloat (fl (val (py_sum (map PFloat xs)) / fl (of_nat (length xs)))))"
proof (cases xs rule: rev_cases)
  case Nil
  assume "xs \<noteq> []"
  then show ?thesis using Nil by simp
next
  case (snoc ys y)
  have n: "fl (of_nat (length xs)) \<noteq> 0"
  proof -
    have "0 < length xs" using snoc by simp
    then have "0 < fl (of_int (int (length xs)))" by (rule fl_of_nat_pos)
    then show ?thesis by simp
  qed
  have "py_sum (map PFloat xs) = PFloat (val (py_sum (map PFloat xs)))"
    using snoc by (simp add: py_sum_snoc py_add_float)
  then obtain z where z: "py_sum (map PFloat xs) = PFloat z" ..
  have "average (map PFloat xs) = py_truediv (PFloat z) (PInt (int (length xs)))"
    using snoc by (simp add: average_def z [symmetric])
  also have "\<dots> = Inr (PFloat (fl (z / fl (of_nat (length xs)))))"
    using snoc by simp
  finally show ?thesis by (simp add: z)
qed

lemma average_error:
  assumes "xs \<noteq> []" "\<forall>x\<in>set xs. \<bar>x\<bar> \<le> M" "min_normal \<le> M"
  shows "\<exists>a. average (map PFloat xs) = Inr (PFloat a) \<and>
           \<bar>a - sum_list xs / of_nat (length xs)\<bar>
             \<le> M * ((1 + unit_roundoff) ^ (length xs + 1) / (1 - unit_roundoff) - 1)"
proof -
  define u where "u = unit_roundoff"
  define N :: rat where "N = of_nat (length xs)"
  define F where "F = fl N"
  define p where "p = (1 + u) ^ length xs"
  define s where "s = val (py_sum (map PFloat xs))"
  define S where "S = sum_list xs"
  define t where "t = s / F"
  define D where "D = \<bar>t - S / N\<bar>"
  have u: "0 < u" "u < 1" using unit_roundoff_bounds by (simp_all add: u_def)
  have M: "0 < M" using assms(3) min_normal_bounds(1) by linarith
  have "0 < length xs" using assms(1) by simp
  then have N: "1 \<le> N" by (simp add: N_def Suc_le_eq)
  have p: "1 \<le> p" unfolding p_def using u by (intro one_le_power) simp
  have sS: "\<bar>s - S\<bar> \<le> (p - 1) * N * M"
    using py_sum_error [OF assms(2,3)] by (simp add: s_def S_def p_def N_def u_def)
  have SN: "\<bar>S\<bar> \<le> N * M"
    using sum_list_abs_le [OF assms(2)] by (simp add: S_def N_def)
  have "max \<bar>N\<bar> min_normal = N" using N min_normal_bounds(2) by simp
  then have FN: "\<bar>F - N\<bar> \<le> N * u"
    using fl_error_rel [of N] by (simp add: F_def u_def)
  then have Fl: "N * (1 - u) \<le> F" by (simp add: algebra_simps)
  have "0 < N * (1 - u)" using N u by simp
  then have F: "0 < F" using Fl by linarith
  have NF: "N / F \<le> 1 / (1 - u)"
    using Fl F u by (simp add: field_simps)
  have "t - S / N = (s - S) / F + S * (N - F) / (N * F)"
    unfolding t_def using N F by (intro split_step) simp_all
  then have "D = \<bar>(s - S) / F + S * (N - F) / (N * F)\<bar>"
    unfolding D_def by (simp only:)
  also have "\<dots> \<le> \<bar>(s - S) / F\<bar> + \<bar>S * (N - F) / (N * F)\<bar>"
    by (rule abs_triangle_ineq)
  finally have "D \<le> \<bar>(s - S) / F\<bar> + \<bar>S * (N - F) / (N * F)\<bar>" .
  moreover have "\<bar>(s - S) / F\<bar> \<le> (p - 1) * N * M / F"
    using sS F by (simp add: divide_right_mono abs_divide)
  moreover have "\<bar>S * (N - F) / (N * F)\<bar> \<le> N * M * u / F"
  proof -
    have "\<bar>S\<bar> * \<bar>N - F\<bar> \<le> (N * M) * (N * u)"
      using SN FN by (intro mult_mono) (simp_all add: abs_minus_commute)
    then have "\<bar>S\<bar> * \<bar>N - F\<bar> / (N * F) \<le> (N * M) * (N * u) / (N * F)"
      using N F by (intro divide_right_mono) simp_all
    moreover have "(N * M) * (N * u) / (N * F) = N * M * u / F" using N by simp
    moreover have "\<bar>S * (N - F) / (N * F)\<bar> = \<bar>S\<bar> * \<bar>N - F\<bar> / (N * F)"
      using N F by (simp add: abs_mult)
    ultimately show ?thesis by simp
  qed
  ultimately have "D \<le> (p - 1) * N * M / F + N * M * u / F" by linarith
  also have "\<dots> = (N / F) * ((p - 1 + u) * M)" by (simp add: algebra_simps add_divide_distrib diff_divide_distrib)
  also have "\<dots> \<le> (1 / (1 - u)) * ((p - 1 + u) * M)"
    using NF p u M by (intro mult_right_mono) simp_all
  finally have D: "D \<le> (p - 1 + u) * M / (1 - u)" by simp
  have D0: "0 \<le> D" by (simp add: D_def)
  have "\<bar>S / N\<bar> \<le> M"
  proof -
    have "\<bar>S\<bar> / N \<le> N * M / N" using SN N by (intro divide_right_mono) simp_all
    then show ?thesis using N by simp
  qed
  then have "\<bar>t\<bar> \<le> M + D" unfolding D_def by linarith
  then have "max \<bar>t\<bar> min_normal \<le> M + D" using assms(3) D0 by simp
  then have "max \<bar>t\<bar> min_normal * u \<le> (M + D) * u"
    using u by (simp only: mult_le_cancel_right_pos)
  then have "\<bar>fl t - t\<bar> \<le> (M + D) * u"
    using fl_error_rel [of t] unfolding u_def by linarith
  then have "\<bar>fl t - S / N\<bar> \<le> (M + D) * u + D" unfolding D_def by linarith
  also have "\<dots> = u * M + (1 + u) * D" by (simp add: algebra_simps)
  also have "\<dots> \<le> u * M + (1 + u) * ((p - 1 + u) * M / (1 - u))"
  proof -
    have "(1 + u) * D \<le> (1 + u) * ((p - 1 + u) * M / (1 - u))"
      using D u by (intro mult_left_mono) simp_all
    then show ?thesis by (simp only: add_le_cancel_left)
  qed
  also have "\<dots> = M * ((1 + u) * p / (1 - u) - 1)" using u(2) by (rule final_step)
  finally have "\<bar>fl t - S / N\<bar> \<le> M * ((1 + u) ^ (length xs + 1) / (1 - u) - 1)"
    by (simp add: p_def)
  moreover have "average (map PFloat xs) = Inr (PFloat (fl t))"
    using average_floats [OF assms(1)] by (simp add: t_def s_def F_def N_def)
  ultimately show ?thesis unfolding S_def N_def u_def by blast
qed

lemma average_replicate_error:
  assumes "0 < n"
  shows "\<exists>a. average (replicate n (PFloat x)) = Inr (PFloat a) \<and>
           \<bar>a - x\<bar> \<le> max \<bar>x\<bar> min_normal
                      * ((1 + unit_roundoff) ^ (n + 1) / (1 - unit_roundoff) - 1)"
proof -
  have ne: "replicate n x \<noteq> []" using assms by simp
  have le: "\<forall>y\<in>set (replicate n x). \<bar>y\<bar> \<le> max \<bar>x\<bar> min_normal" by simp
  have s: "sum_list (replicate n x) / of_nat (length (replicate n x)) = x"
    using assms by (simp add: sum_list_replicate)
  obtain a where "average (map PFloat (replicate n x)) = Inr (PFloat a)"
    "\<bar>a - sum_list (replicate n x) / of_nat (length (replicate n x))\<bar>
       \<le> max \<bar>x\<bar> min_normal
           * ((1 + unit_roundoff) ^ (length (replicate n x) + 1) / (1 - unit_roundoff) - 1)"
    using average_error [OF ne le] by force
  then show ?thesis unfolding s by simp
qed

lemma test_df_count: "pt_usual_count test_df = 3"
  by (simp add: test_df_def pt_usual_count_def pt_row_def uniform_profile_def)

lemma roundoff_4: "(1 + unit_roundoff) ^ 4 / (1 - unit_roundoff) - 1 \<le> 1 / 2 ^ 50"
  by (simp add: unit_roundoff_def power_divide)

text \<open>
  C3: the \<open>average_pt_crowding\<close> of the result is the mean of the perceived crowding
  values of the steps and of nothing else: every step records the crowding of the line
  after all PT-usual agents have boarded, one value per step, and the final crowding of a
  step, computed from the agents that stay after the response, is printed but is not
  among the recorded values. The result is the float \<^verbatim>\<open>sum / len\<close> of the recorded values:
  it differs from their exact arithmetic mean by the rounding of the \<open>N\<close> additions and
  of the division only, a relative error of at most \<open>(1 + u)\<^sup>N\<^sup>+\<^sup>1 / (1 - u) - 1\<close> for the
  unit roundoff \<open>u\<close>, about \<open>N + 2\<close> units of roundoff. With no step it is the int 0.
\<close>

theorem average_of_pre_response_only:
  "\<exists>st q f a.
      simulate tol df C N = Inr st \<and>
      length (printed st) = nat N \<and>
      get_crowding_level
        \<lparr> name = ''Main PT Line'', capacity = C, current_riders = pt_usual_count df \<rparr> = Inr q \<and>
      map perceived_of (printed st) = replicate (nat N) q \<and>
      get_crowding_level
        \<lparr> name = ''Main PT Line'', capacity = C,
          current_riders = stayers q (pt_users (init_state tol df C)) \<rparr> = Inr f \<and>
      map final_of (printed st) = replicate (nat N) f \<and>
      crowding_levels_over_time st = map perceived_of (printed st) \<and>
      run_crowding_simulation tol df C N =
        Inr [(''average_pt_crowding'', a),
             (''total_mode_switches_from_pt'', PInt (mode_switches_total st)),
             (''simulated_pt_capacity'', PInt C),
             (''num_sim_steps'', PInt N)] \<and>
      (N \<le> 0 \<longrightarrow> a = PInt 0) \<and>
      (0 < N \<longrightarrow>
         \<bar>val a - sum_list (map val (crowding_levels_over_time st))
                    / of_nat (length (crowding_levels_over_time st))\<bar>
           \<le> max \<bar>val q\<bar> min_normal
               * ((1 + unit_roundoff) ^ (nat N + 1) / (1 - unit_roundoff) - 1))"
proof -
  let ?q = "crowding_of (pt_usual_count df) C"
  let ?f = "crowding_of (stayers ?q (pt_users (init_state tol df C))) C"
  obtain st where st: "simulate tol df C N = Inr st"
    and lv: "crowding_levels_over_time st = replicate (nat N) ?q"
    and pv: "map perceived_of (printed st) = replicate (nat N) ?q"
    and av: "map attempting_of (printed st) = replicate (nat N) (pt_usual_count df)"
    and fv: "map final_of (printed st) = replicate (nat N) ?f"
    using simulate_eq [of tol df C N] by blast
  have len: "length (printed st) = nat N"
    using arg_cong [OF av, of length] by simp
  have q: "get_crowding_level
        \<lparr> name = ''Main PT Line'', capacity = C, current_riders = pt_usual_count df \<rparr> = Inr ?q"
    by (simp add: get_crowding_level_eq)
  have f: "get_crowding_level
        \<lparr> name = ''Main PT Line'', capacity = C,
          current_riders = stayers ?q (pt_users (init_state tol df C)) \<rparr> = Inr ?f"
    by (simp add: get_crowding_level_eq)
  obtain x where x: "?q = PFloat x" using crowding_of_float by blast
  have "\<exists>a. average (replicate (nat N) ?q) = Inr a \<and>
          (N \<le> 0 \<longrightarrow> a = PInt 0) \<and>
          (0 < N \<longrightarrow> \<bar>val a - x\<bar> \<le> max \<bar>x\<bar> min_normal
               * ((1 + unit_roundoff) ^ (nat N + 1) / (1 - unit_roundoff) - 1))"
  proof (cases "0 < N")
    case True
    then have "0 < nat N" by simp
    then show ?thesis using average_replicate_error [of "nat N" x] True unfolding x by auto
  next
    case False
    then show ?thesis by (simp add: average_nil)
  qed
  then obtain a where a: "average (replicate (nat N) ?q) = Inr a"
    and a0: "N \<le> 0 \<longrightarrow> a = PInt 0"
    and ab: "0 < N \<longrightarrow> \<bar>val a - x\<bar> \<le> max \<bar>x\<bar> min_normal
               * ((1 + unit_roundoff) ^ (nat N + 1) / (1 - unit_roundoff) - 1)"
    by blast
  have mean: "0 < N \<Longrightarrow> sum_list (map val (crowding_levels_over_time st))
                    / of_nat (length (crowding_levels_over_time st)) = x"
    unfolding lv x by (simp add: sum_list_replicate)
  have run: "run_crowding_simulation tol df C N =
        Inr [(''average_pt_crowding'', a),
             (''total_mode_switches_from_pt'', PInt (mode_switches_total st)),
             (''simulated_pt_capacity'', PInt C),
             (''num_sim_steps'', PInt N)]"
    by (simp add: run_crowding_simulation_def st lv a)
  have lp: "crowding_levels_over_time st = map perceived_of (printed st)" by (simp add: lv pv)
  have bd: "0 < N \<longrightarrow>
         \<bar>val a - sum_list (map val (crowding_levels_over_time st))
                    / of_nat (length (crowding_levels_over_time st))\<bar>
           \<le> max \<bar>val ?q\<bar> min_normal
               * ((1 + unit_roundoff) ^ (nat N + 1) / (1 - unit_roundoff) - 1)"
    using ab mean by (simp add: x)
  from st len q pv f fv lp run a0 bd show ?thesis by blast
qed

theorem average_of_pre_response_only_witness:
  "(0::int) < 3 \<and>
   (\<exists>a sw. run_crowding_simulation (fixed_draws (fl (3 / 5))) test_df 3 3 =
        Inr [(''average_pt_crowding'', a),
             (''total_mode_switches_from_pt'', PInt sw),
             (''simulated_pt_capacity'', PInt 3),
             (''num_sim_steps'', PInt 3)] \<and>
      \<bar>val a - 1\<bar> \<le> 1 / 2 ^ 50)"
  using average_of_pre_response_only [of "fixed_draws (fl (3 / 5))" test_df 3 3]
proof (elim exE conjE)
  fix st q f a
  assume q: "get_crowding_level
        \<lparr> name = ''Main PT Line'', capacity = 3, current_riders = pt_usual_count test_df \<rparr> = Inr q"
    and pv: "map perceived_of (printed st) = replicate (nat 3) q"
    and lv: "crowding_levels_over_time st = map perceived_of (printed st)"
    and run: "run_crowding_simulation (fixed_draws (fl (3 / 5))) test_df 3 3 =
        Inr [(''average_pt_crowding'', a),
             (''total_mode_switches_from_pt'', PInt (mode_switches_total st)),
             (''simulated_pt_capacity'', PInt 3),
             (''num_sim_steps'', PInt 3)]"
    and bd: "(0::int) < 3 \<longrightarrow>
         \<bar>val a - sum_list (map val (crowding_levels_over_time st))
                    / of_nat (length (crowding_levels_over_time st))\<bar>
           \<le> max \<bar>val q\<bar> min_normal
               * ((1 + unit_roundoff) ^ (nat 3 + 1) / (1 - unit_roundoff) - 1)"
  have q1: "q = PFloat 1"
    using q by (simp add: get_crowding_level_def test_df_count py_min_def py_lt_def)
  have "\<bar>val a - 1\<bar> \<le> (1 + unit_roundoff) ^ 4 / (1 - unit_roundoff) - 1"
    using bd min_normal_bounds(2) by (simp add: lv pv q1 sum_list_replicate)
  then have "\<bar>val a - 1\<bar> \<le> 1 / 2 ^ 50" using roundoff_4 by linarith
  then show ?thesis using run by simp
qed

lemma crowding_of_zero_riders: "crowding_of 0 C = PFloat 0"
  by (simp add: crowding_of_def py_min_def py_lt_def)

lemma no_pt_users: "pt_usual_count df = 0 \<Longrightarrow> pt_users (init_state tol df C) = []"
  using init_users_length [of tol df C] by simp

text \<open>
  C5: degenerate inputs give results, not errors. With no PT-usual agent, for every
  capacity and every number of steps, the run returns average crowding 0 (the float 0.0
  when a step ran, the int 0 otherwise) and 0 switches; with 0 steps the average is the
  int 0 of the empty case.
\<close>

theorem degenerate_runs:
  "(pt_usual_count df = 0 \<longrightarrow>
      run_crowding_simulation tol df C N =
        Inr [(''average_pt_crowding'', if 0 < N then PFloat 0 else PInt 0),
             (''total_mode_switches_from_pt'', PInt 0),
             (''simulated_pt_capacity'', PInt C),
             (''num_sim_steps'', PInt N)]) \<and>
   run_crowding_simulation tol df C 0 =
        Inr [(''average_pt_crowding'', PInt 0),
             (''total_mode_switches_from_pt'', PInt 0),
             (''simulated_pt_capacity'', PInt C),
             (''num_sim_steps'', PInt 0)]"
proof -
  have zero: "run_crowding_simulation tol df C 0 =
        Inr [(''average_pt_crowding'', PInt 0),
             (''total_mode_switches_from_pt'', PInt 0),
             (''simulated_pt_capacity'', PInt C),
             (''num_sim_steps'', PInt 0)]"
    by (simp add: run_eq average_nil)
  have none: "run_crowding_simulation tol df C N =
        Inr [(''average_pt_crowding'', if 0 < N then PFloat 0 else PInt 0),
             (''total_mode_switches_from_pt'', PInt 0),
             (''simulated_pt_capacity'', PInt C),
             (''num_sim_steps'', PInt N)]" if p: "pt_usual_count df = 0"
  proof (cases "0 < N")
    case True
    then obtain m where m: "nat N = Suc m" by (cases "nat N") simp_all
    show ?thesis using True
      unfolding run_eq p crowding_of_zero_riders m average_zeros no_pt_users [OF p]
      by (simp add: switchers_def)
  next
    case False
    then have "nat N = 0" by simp
    then show ?thesis using False
      by (simp add: run_eq average_nil)
  qed
  from zero none show ?thesis by blast
qed

lemma car_only_count: "pt_usual_count [pt_row 2 ''Car'' 3 3] = 0"
  by (simp add: pt_usual_count_def pt_row_def uniform_profile_def)

theorem degenerate_runs_witness:
  "pt_usual_count [pt_row 2 ''Car'' 3 3] = 0 \<and>
   run_crowding_simulation (fixed_draws (fl (7 / 10))) [pt_row 2 ''Car'' 3 3] 10 5 =
     Inr [(''average_pt_crowding'', PFloat 0),
          (''total_mode_switches_from_pt'', PInt 0),
          (''simulated_pt_capacity'', PInt 10),
          (''num_sim_steps'', PInt 5)]"
  using degenerate_runs [of "[pt_row 2 ''Car'' 3 3]" "fixed_draws (fl (7 / 10))" 10 5]
  by (simp add: car_only_count)

lemma crowding_of_antitone:
  assumes "0 < C2" "C2 < C1" "0 \<le> P"
  shows "\<exists>x y. crowding_of P C1 = PFloat x \<and> crowding_of P C2 = PFloat y \<and> x \<le> y"
proof -
  have "(of_int P :: rat) / of_int C1 \<le> of_int P / of_int C2"
    using assms by (intro divide_left_mono) simp_all
  then have "fl (of_int P / of_int C1) \<le> fl (of_int P / of_int C2)" by (rule fl_mono)
  then show ?thesis using assms by (simp add: crowding_of_def py_min_def py_lt_def)
qed

text \<open>
  C6: for a fixed population and a positive number of steps, of two positive capacities
  the smaller one gives an average crowding at least as large, whatever tolerances are
  drawn in the two runs.
\<close>

theorem crowding_antitone_in_capacity:
  assumes "0 < C2" "C2 < C1" "0 < N"
  shows "\<exists>r1 r2 a1 a2.
           run_crowding_simulation tol1 df C1 N = Inr r1 \<and>
           run_crowding_simulation tol2 df C2 N = Inr r2 \<and>
           map_of r1 ''average_pt_crowding'' = Some a1 \<and>
           map_of r2 ''average_pt_crowding'' = Some a2 \<and>
           val a1 \<le> val a2"
proof -
  obtain m where m: "nat N = Suc m" using assms(3) by (cases "nat N") simp_all
  have "0 \<le> pt_usual_count df" by (simp add: pt_usual_count_def)
  then obtain x y where x: "crowding_of (pt_usual_count df) C1 = PFloat x"
    and y: "crowding_of (pt_usual_count df) C2 = PFloat y" and xy: "x \<le> y"
    using crowding_of_antitone [OF assms(1,2)] by blast
  obtain a b where a: "average (replicate (Suc m) (PFloat x)) = Inr a"
    and b: "average (replicate (Suc m) (PFloat y)) = Inr b" and ab: "val a \<le> val b"
    using average_mono [OF xy] by blast
  show ?thesis
    by (simp only: run_eq m x y a b) (simp add: ab)
qed

theorem crowding_antitone_in_capacity_witness:
  "(0::int) < 3 \<and> (3::int) < 100 \<and>
   (\<exists>r1 r2 a1 a2.
      run_crowding_simulation (fixed_draws (fl (7 / 10))) test_df 100 3 = Inr r1 \<and>
      run_crowding_simulation (fixed_draws (fl (3 / 5))) test_df 3 3 = Inr r2 \<and>
      map_of r1 ''average_pt_crowding'' = Some a1 \<and>
      map_of r2 ''average_pt_crowding'' = Some a2 \<and>
      val a1 \<le> val a2)"
  using crowding_antitone_in_capacity
    [of 3 100 3 "fixed_draws (fl (7 / 10))" test_df "fixed_draws (fl (3 / 5))"]
  by simp

lemma make_agents_mem:
  assumes "a \<in> set (make_agents tol df)"
  shows "\<exists>i row. row \<in> set df \<and>
           a = CommuterAgent_init (CommuterID row) (UsualCommuteMode row)
                 (PInt (Attitude_PT_Score row)) (PInt (PBC_PT_Score row)) None (tol i)"
proof -
  from assms obtain i row where m: "(i, row) \<in> set (enumerate 0 df)"
    and a: "a = CommuterAgent_init (CommuterID row) (UsualCommuteMode row)
                 (PInt (Attitude_PT_Score row)) (PInt (PBC_PT_Score row)) None (tol i)"
    by (auto simp add: make_agents_def)
  from m have "row \<in> set df" by (auto simp add: in_set_enumerate_eq)
  then show ?thesis using a by blast
qed

lemma scenario_verdict:
  assumes "usual_mode a = ''Public Transport''" "pbc_pt a = PInt 5"
    "crowding_tolerance a = PFloat (fl (3 / 5))"
  shows "py_mul (py_max (PInt 0) (py_sub (PFloat 1) (crowding_tolerance a))) (PInt 2)
           = PFloat (fl (4 / 5)) \<and>
         py_max (PInt 1) (py_sub (pbc_pt a) (py_mul (PFloat (fl (4 / 5))) (PInt 3)))
           = PFloat (1463669878895411 / 562949953421312) \<and>
         fst (decide_on_pt a (PFloat 1)) = False"
proof -
  have i: "py_mul (py_max (PInt 0) (py_sub (PFloat 1) (crowding_tolerance a))) (PInt 2)
           = PFloat (fl (4 / 5))"
    by (simp only: assms scenario_arith)
  have p: "py_max (PInt 1) (py_sub (pbc_pt a) (py_mul (PFloat (fl (4 / 5))) (PInt 3)))
           = PFloat (1463669878895411 / 562949953421312)"
    by (simp only: assms scenario_arith)
  have "fst (decide_on_pt a (PFloat 1)) = False"
    unfolding decide_on_pt_def Let_def i p using assms(1) by (simp add: py_lt_def)
  with i p show ?thesis by simp
qed

lemma all_switch:
  "\<forall>a\<in>set us. \<not> fst (decide_on_pt a c) \<Longrightarrow> stayers c us = 0 \<and> switchers c us = int (length us)"
  by (induction us) (simp_all add: stayers_def switchers_def)

lemma simulate_one: "simulate tol df C 1 = sim_step (init_state tol df C)"
  by (simp add: simulate_def sim_step_eq)

lemma crowding_of_full: "crowding_of 3 3 = PFloat 1"
  by (simp add: crowding_of_def py_min_def py_lt_def)

text \<open>
  C8: five rows of which three are PT-usual with PBC-PT score 5, every tolerance drawn
  being the float 0.6, capacity 3 and one step. The perceived crowding is 1.0; for each
  PT-usual agent the impact is the float 0.8 and the adjusted PBC is the float of
  \<^verbatim>\<open>5 - 0.8 * 3\<close> (2.6 up to rounding), which is below 3, so the verdict is to switch;
  the result has 3 switches and average crowding 1.0.
\<close>

theorem scenario_three_switches:
  assumes "length df = 5" and "pt_usual_count df = 3"
    and "\<forall>row\<in>set df. UsualCommuteMode row = ''Public Transport'' \<longrightarrow> PBC_PT_Score row = 5"
    and "\<forall>i. tol i = fl (3 / 5)"
  shows "\<exists>st. simulate tol df 3 1 = Inr st \<and>
           printed st = [(3, PFloat 1, 0, PFloat 0)] \<and>
           (\<forall>agent\<in>set (pt_users (init_state tol df 3)).
              py_mul (py_max (PInt 0) (py_sub (PFloat 1) (crowding_tolerance agent))) (PInt 2)
                = PFloat (fl (4 / 5)) \<and>
              py_max (PInt 1) (py_sub (pbc_pt agent) (py_mul (PFloat (fl (4 / 5))) (PInt 3)))
                = PFloat (1463669878895411 / 562949953421312) \<and>
              fst (decide_on_pt agent (PFloat 1)) = False) \<and>
           (1463669878895411 / 562949953421312 :: rat) < 3 \<and>
           \<bar>1463669878895411 / 562949953421312 - 26 / 10 :: rat\<bar> < 1 / 10 ^ 15 \<and>
           run_crowding_simulation tol df 3 1 =
             Inr [(''average_pt_crowding'', PFloat 1),
                  (''total_mode_switches_from_pt'', PInt 3),
                  (''simulated_pt_capacity'', PInt 3),
                  (''num_sim_steps'', PInt 1)]"
proof -
  let ?us = "pt_users (init_state tol df 3)"
  have len: "int (length ?us) = 3" using init_users_length [of tol df 3] assms(2) by simp
  have agents: "py_mul (py_max (PInt 0) (py_sub (PFloat 1) (crowding_tolerance a))) (PInt 2)
                = PFloat (fl (4 / 5)) \<and>
              py_max (PInt 1) (py_sub (pbc_pt a) (py_mul (PFloat (fl (4 / 5))) (PInt 3)))
                = PFloat (1463669878895411 / 562949953421312) \<and>
              fst (decide_on_pt a (PFloat 1)) = False" if a: "a \<in> set ?us" for a
  proof -
    from a have m: "a \<in> set (make_agents tol df)" and pt: "usual_mode a = ''Public Transport''"
      by (simp_all add: init_state_def)
    from make_agents_mem [OF m] obtain i row where row: "row \<in> set df"
      and ai: "a = CommuterAgent_init (CommuterID row) (UsualCommuteMode row)
                 (PInt (Attitude_PT_Score row)) (PInt (PBC_PT_Score row)) None (tol i)"
      by blast
    have "UsualCommuteMode row = ''Public Transport''" using pt ai
      by (simp add: CommuterAgent_init_def)
    then have "PBC_PT_Score row = 5" using assms(3) row by blast
    then have pbc: "pbc_pt a = PInt 5" using ai by (simp add: CommuterAgent_init_def)
    have t: "crowding_tolerance a = PFloat (fl (3 / 5))"
      using ai assms(4) by (simp add: CommuterAgent_init_def)
    show ?thesis using pt pbc t by (rule scenario_verdict)
  qed
  then have "\<forall>a\<in>set ?us. \<not> fst (decide_on_pt a (PFloat 1))" by simp
  then have ss: "stayers (PFloat 1) ?us = 0" "switchers (PFloat 1) ?us = 3"
    using all_switch [of ?us "PFloat 1"] len by simp_all
  define st where "st = \<lparr> pt_line = (pt_line (init_state tol df 3))\<lparr>current_riders := 0\<rparr>,
           pt_users = map (mark_switch (PFloat 1)) ?us,
           mode_switches_total = 3,
           crowding_levels_over_time = [PFloat 1],
           printed = [(3, PFloat 1, 0, PFloat 0)] \<rparr>"
  have sim: "simulate tol df 3 1 = Inr st"
    unfolding simulate_one sim_step_eq len init_state_fields crowding_of_full ss
      crowding_of_zero_riders st_def
    by simp
  have run: "run_crowding_simulation tol df 3 1 =
             Inr [(''average_pt_crowding'', PFloat 1),
                  (''total_mode_switches_from_pt'', PInt 3),
                  (''simulated_pt_capacity'', PInt 3),
                  (''num_sim_steps'', PInt 1)]"
    by (simp add: run_crowding_simulation_def sim st_def average_single)
  have pr: "printed st = [(3, PFloat 1, 0, PFloat 0)]" by (simp add: st_def)
  have lt: "(1463669878895411 / 562949953421312 :: rat) < 3" by simp
  have near: "\<bar>1463669878895411 / 562949953421312 - 26 / 10 :: rat\<bar> < 1 / 10 ^ 15" by simp
  from sim pr agents lt near run show ?thesis by blast
qed

lemma scenario_df_facts:
  "length scenario_df = 5" "pt_usual_count scenario_df = 3"
  "\<forall>row\<in>set scenario_df. UsualCommuteMode row = ''Public Transport'' \<longrightarrow> PBC_PT_Score row = 5"
  by (simp_all add: scenario_df_def pt_usual_count_def pt_row_def uniform_profile_def)

theorem scenario_three_switches_witness:
  "length scenario_df = 5 \<and> pt_usual_count scenario_df = 3 \<and>
   fixed_draws (fl (3 / 5)) 0 = fl (3 / 5) \<and>
   run_crowding_simulation (fixed_draws (fl (3 / 5))) scenario_df 3 1 =
     Inr [(''average_pt_crowding'', PFloat 1),
          (''total_mode_switches_from_pt'', PInt 3),
          (''simulated_pt_capacity'', PInt 3),
          (''num_sim_steps'', PInt 1)]"
proof -
  have d: "\<forall>i. fixed_draws (fl (3 / 5)) i = fl (3 / 5)" by (simp add: fixed_draws_def)
  from scenario_three_switches [OF scenario_df_facts d]
  show ?thesis using scenario_df_facts(1,2) d by blast
qed

text \<open>
  C10, as stated, fails: the average is computed in floating point, and the sum of
  three copies of the float of \<^verbatim>\<open>1 / 10\<close> divided by 3 is not that float. One PT-usual
  agent, capacity 10 and three steps give the average 0.10000000000000002, while the
  crowding of every step is 0.1.
\<close>

theorem average_not_exact_counterexample:
  "run_crowding_simulation (fixed_draws (fl (3 / 5))) [pt_row 1 ''Public Transport'' 5 5] 10 3 =
     Inr [(''average_pt_crowding'', PFloat (7205759403792795 / 72057594037927936)),
          (''total_mode_switches_from_pt'', PInt 0),
          (''simulated_pt_capacity'', PInt 10),
          (''num_sim_steps'', PInt 3)] \<and>
   get_crowding_level \<lparr> name = ''Main PT Line'', capacity = 10, current_riders = 1 \<rparr>
     = Inr (PFloat (3602879701896397 / 36028797018963968)) \<and>
   (7205759403792795 / 72057594037927936 :: rat) \<noteq> 3602879701896397 / 36028797018963968"
  by code_simp

text \<open>
  C10, amended: for a positive capacity \<open>C\<close> and a positive number of steps \<open>N\<close>, the
  crowding recorded in every step is \<open>q\<close>, the smaller of 1 and the float of \<open>P / C\<close> for
  the number \<open>P\<close> of PT-usual rows, and the returned average is the float average of \<open>N\<close>
  copies of \<open>q\<close>. It equals \<open>q\<close> up to rounding: the relative error is at most
  \<open>(1 + u)\<^sup>N\<^sup>+\<^sup>1 / (1 - u) - 1\<close> for the unit roundoff \<open>u\<close>, about \<open>N + 2\<close> units of
  roundoff, and it is \<open>q\<close> itself when \<open>N = 1\<close>. It is the same for every population with
  \<open>P\<close> PT-usual rows, whatever the scores and the tolerances drawn.
\<close>

theorem average_is_float_mean:
  assumes "0 < C" "0 < N"
  shows "\<exists>q a r st.
           q = PFloat (min 1 (fl (of_int (pt_usual_count df) / of_int C))) \<and>
           get_crowding_level
             \<lparr> name = ''Main PT Line'', capacity = C, current_riders = pt_usual_count df \<rparr>
             = Inr q \<and>
           simulate tol df C N = Inr st \<and>
           crowding_levels_over_time st = replicate (nat N) q \<and>
           average (replicate (nat N) q) = Inr a \<and>
           run_crowding_simulation tol df C N = Inr r \<and>
           map_of r ''average_pt_crowding'' = Some a \<and>
           \<bar>val a - val q\<bar>
             \<le> max (val q) min_normal
                 * ((1 + unit_roundoff) ^ (nat N + 1) / (1 - unit_roundoff) - 1) \<and>
           (N = 1 \<longrightarrow> a = q) \<and>
           (\<forall>tol' df'. pt_usual_count df' = pt_usual_count df \<longrightarrow>
              (\<exists>r'. run_crowding_simulation tol' df' C N = Inr r' \<and>
                    map_of r' ''average_pt_crowding'' = Some a))"
proof -
  let ?q = "crowding_of (pt_usual_count df) C"
  define x where "x = min 1 (fl (of_int (pt_usual_count df) / of_int C))"
  have q: "?q = PFloat x"
    using assms(1) by (auto simp add: crowding_of_def py_min_def py_lt_def x_def)
  have fx: "fl x = x" using crowding_of_float [of "pt_usual_count df" C] q by simp
  have "(0::rat) \<le> of_int (pt_usual_count df) / of_int C"
    using assms(1) by (simp add: pt_usual_count_def)
  then have "0 \<le> fl (of_int (pt_usual_count df) / of_int C)" by (rule fl_nonneg)
  then have x0: "0 \<le> x" by (simp add: x_def)
  have g: "get_crowding_level
             \<lparr> name = ''Main PT Line'', capacity = C, current_riders = pt_usual_count df \<rparr>
             = Inr ?q"
    by (simp add: get_crowding_level_eq)
  have "0 < nat N" using assms(2) by simp
  then obtain a where a: "average (replicate (nat N) (PFloat x)) = Inr (PFloat a)"
    and ab: "\<bar>a - x\<bar> \<le> max \<bar>x\<bar> min_normal
               * ((1 + unit_roundoff) ^ (nat N + 1) / (1 - unit_roundoff) - 1)"
    using average_replicate_error [of "nat N" x] by blast
  have bd: "\<bar>val (PFloat a) - val (PFloat x)\<bar> \<le> max (val (PFloat x)) min_normal
               * ((1 + unit_roundoff) ^ (nat N + 1) / (1 - unit_roundoff) - 1)"
    using ab x0 by simp
  have run: "\<exists>r'. run_crowding_simulation tol' df' C N = Inr r' \<and>
                map_of r' ''average_pt_crowding'' = Some (PFloat a)"
    if "pt_usual_count df' = pt_usual_count df" for tol' df'
    by (simp add: run_eq that q a)
  have one: "N = 1 \<longrightarrow> PFloat a = PFloat x"
  proof
    assume "N = 1"
    then have "average [PFloat x] = Inr (PFloat a)" using a by simp
    then show "PFloat a = PFloat x" using average_single [OF fx] by simp
  qed
  obtain r where r: "run_crowding_simulation tol df C N = Inr r"
    "map_of r ''average_pt_crowding'' = Some (PFloat a)"
    using run [of df tol] by blast
  obtain st where st: "simulate tol df C N = Inr st"
    "crowding_levels_over_time st = replicate (nat N) (PFloat x)"
    using simulate_eq [of tol df C N] unfolding q by blast
  have g': "get_crowding_level
             \<lparr> name = ''Main PT Line'', capacity = C, current_riders = pt_usual_count df \<rparr>
             = Inr (PFloat x)"
    using g q by simp
  from g' st a r bd one run show ?thesis unfolding x_def by blast
qed

lemma one_row_count: "pt_usual_count [pt_row 1 ''Public Transport'' 5 5] = 1"
  by (simp add: pt_usual_count_def pt_row_def uniform_profile_def)

theorem average_is_float_mean_witness:
  "(0::int) < 10 \<and> (0::int) < 3 \<and>
   (\<exists>r a. run_crowding_simulation (fixed_draws (fl (3 / 5)))
              [pt_row 1 ''Public Transport'' 5 5] 10 3 = Inr r \<and>
          map_of r ''average_pt_crowding'' = Some a \<and>
          \<bar>val a - fl (1 / 10)\<bar> \<le> 1 / 2 ^ 50)"
proof -
  have "(0::int) < 10" "(0::int) < 3" by simp_all
  from average_is_float_mean [OF this, of "[pt_row 1 ''Public Transport'' 5 5]"
        "fixed_draws (fl (3 / 5))"]
  show ?thesis
  proof (elim exE conjE)
  fix q a r st
  assume q: "q = PFloat (min 1
       (fl (of_int (pt_usual_count [pt_row 1 ''Public Transport'' 5 5]) / of_int 10)))"
    and r: "run_crowding_simulation (fixed_draws (fl (3 / 5)))
              [pt_row 1 ''Public Transport'' 5 5] 10 3 = Inr r"
       "map_of r ''average_pt_crowding'' = Some a"
    and bd: "\<bar>val a - val q\<bar>
             \<le> max (val q) min_normal
                 * ((1 + unit_roundoff) ^ (nat 3 + 1) / (1 - unit_roundoff) - 1)"
  have vq: "val q = fl (1 / 10)" by (simp add: q one_row_count fl_literals)
  have m: "max (fl (1 / 10)) min_normal \<le> 1"
    using min_normal_bounds(2) by (simp add: fl_literals)
  have "0 \<le> (1 + unit_roundoff) ^ 4 / (1 - unit_roundoff) - 1"
    by (simp add: unit_roundoff_def power_divide)
  then have le: "max (fl (1 / 10)) min_normal
                 * ((1 + unit_roundoff) ^ 4 / (1 - unit_roundoff) - 1)
         \<le> 1 * ((1 + unit_roundoff) ^ 4 / (1 - unit_roundoff) - 1)"
    using m by (rule mult_right_mono [rotated])
  have "\<bar>val a - fl (1 / 10)\<bar>
             \<le> max (fl (1 / 10)) min_normal
                 * ((1 + unit_roundoff) ^ 4 / (1 - unit_roundoff) - 1)"
    using bd by (simp add: vq)
  also note le
  also have "1 * ((1 + unit_roundoff) ^ 4 / (1 - unit_roundoff) - 1)
      = (1 + unit_roundoff) ^ 4 / (1 - unit_roundoff) - 1"
    by (rule mult_1)
  also note roundoff_4
  finally have "\<bar>val a - fl (1 / 10)\<bar> \<le> 1 / 2 ^ 50" .
  then show ?thesis using r by auto
  qed
qed

end
